theory Spec2Isabelle
  imports Complex_Main "HOL-Library.Multiset"
begin

section \<open>Python values used by the statistics code\<close>

text \<open>
  The exceptions that the modelled functions of \<^verbatim>\<open>main.py\<close> and
  \<^verbatim>\<open>determine_p_values.py\<close> can raise. \<open>DegenerateInputError\<close> is the domain error
  that the specification names; no statement of the source raises it.
\<close>

datatype py_error =
    ZeroDivisionError
  | ValueError
  | IndexError
  | KeyError
  | TypeError
  | AttributeError
  | FileNotFoundError
  | DegenerateInputError

subsection \<open>Floats\<close>

text \<open>
  A Python \<^verbatim>\<open>float\<close> is an IEEE 754 binary64 number. A finite float is modelled by the
  rational number it denotes, and every float operation is the exact operation followed by
  \<open>fl\<close>, rounding to the nearest binary64 value, ties to even, with gradual underflow
  (53 significant bits, least exponent \<open>-1022\<close>). Results of magnitude \<open>2 ^ 1024\<close> and above,
  where \<^verbatim>\<open>int / int\<close> raises \<^verbatim>\<open>OverflowError\<close>, are outside the model: the operands here are
  means of per-document word counts.
\<close>

function bit_length :: "int \<Rightarrow> nat" where
  "bit_length a = (if a \<le> 0 then 0 else Suc (bit_length (a div 2)))"
  by pat_completeness auto
termination
  by (relation "measure nat") auto

definition binary_exponent :: "rat \<Rightarrow> int" where
  \<comment> \<open>the \<open>e\<close> with \<open>2 powi e \<le> \<bar>x\<bar> < 2 powi (e + 1)\<close>, for \<open>x \<noteq> 0\<close>\<close>
  "binary_exponent x =
     (let (p, q) = quotient_of \<bar>x\<bar>;
          d = int (bit_length p) - int (bit_length q)
      in if 2 powi d \<le> \<bar>x\<bar> then d else d - 1)"

definition round_half_even :: "rat \<Rightarrow> int" where
  "round_half_even q =
     (let f = \<lfloor>q\<rfloor>; r = q - of_int f
      in if r < 1 / 2 then f
         else if 1 / 2 < r then f + 1
         else if even f then f else f + 1)"

definition fl :: "rat \<Rightarrow> rat" where
  "fl x =
     (if x = 0 then 0
      else let e = max (binary_exponent x) (- 1022);
               ulp = 2 powi (e - 52)
           in of_int (round_half_even (x / ulp)) * ulp)"

definition true_div :: "int \<Rightarrow> int \<Rightarrow> py_error + rat" where
  \<comment> \<open>\<^verbatim>\<open>a / b\<close> on two Python ints: the correctly rounded quotient\<close>
  "true_div a b = (if b = 0 then Inl ZeroDivisionError else Inr (fl (of_int a / of_int b)))"

definition float_sub :: "rat \<Rightarrow> rat \<Rightarrow> rat" where
  "float_sub x y = fl (x - y)"

definition float_abs :: "rat \<Rightarrow> rat" where
  "float_abs x = \<bar>x\<bar>"

subsection \<open>Dictionaries and lists\<close>

text \<open>
  A \<^verbatim>\<open>dict\<close> (and a \<^verbatim>\<open>Counter\<close>) keeps its keys in insertion order: it is an association
  list with distinct keys. The per-document counts are Python ints.
\<close>

type_synonym document_counts = "(string \<times> int) list"

definition dict_get :: "('k \<times> 'v) list \<Rightarrow> 'k \<Rightarrow> 'v \<Rightarrow> 'v" where
  \<comment> \<open>\<^verbatim>\<open>d.get(k, default)\<close>\<close>
  "dict_get d k dflt = (case map_of d k of None \<Rightarrow> dflt | Some v \<Rightarrow> v)"

fun dict_set :: "('k \<times> 'v) list \<Rightarrow> 'k \<Rightarrow> 'v \<Rightarrow> ('k \<times> 'v) list" where
  \<comment> \<open>\<^verbatim>\<open>d[k] = v\<close>: a present key keeps its place, a new key goes last\<close>
  "dict_set [] k v = [(k, v)]"
| "dict_set ((k', v') # kvs) k v =
     (if k' = k then (k', v) # kvs else (k', v') # dict_set kvs k v)"

definition dict_del :: "('k \<times> 'v) list \<Rightarrow> 'k \<Rightarrow> py_error + ('k \<times> 'v) list" where
  \<comment> \<open>\<^verbatim>\<open>del d[k]\<close>\<close>
  "dict_del d k =
     (if k \<in> fst ` set d then Inr (filter (\<lambda>kv. fst kv \<noteq> k) d) else Inl KeyError)"

definition dict_update :: "('k \<times> 'v) list \<Rightarrow> ('k \<times> 'v) list \<Rightarrow> ('k \<times> 'v) list" where
  \<comment> \<open>\<^verbatim>\<open>d.update(other)\<close>\<close>
  "dict_update d other = foldl (\<lambda>acc kv. dict_set acc (fst kv) (snd kv)) d other"

definition list_index :: "'a list \<Rightarrow> int \<Rightarrow> py_error + 'a" where
  \<comment> \<open>\<^verbatim>\<open>xs[i]\<close>: an index below zero is taken from the end of the list, and one that
      falls outside the list on either side raises\<close>
  "list_index xs i =
     (if 0 \<le> i \<and> i < int (length xs) then Inr (xs ! nat i)
      else if i < 0 \<and> - int (length xs) \<le> i then Inr (xs ! nat (int (length xs) + i))
      else Inl IndexError)"

subsection \<open>The random source\<close>

text \<open>
  \<^verbatim>\<open>random.randint\<close> reads the interpreter's global generator. The generator is modelled by
  the tape of its future raw outcomes: the next call \<^verbatim>\<open>randint(a, b)\<close> returns
  \<open>a + g 0 mod (b - a + 1)\<close> and leaves the rest of the tape. Every sequence of results that
  \<^verbatim>\<open>randint\<close> can return is the behaviour of some tape, so a statement for all tapes is a
  statement for every run. The distribution of the outcomes is the library's and is not
  part of the model.
\<close>

type_synonym rng = "nat \<Rightarrow> nat"

definition advance :: "nat \<Rightarrow> rng \<Rightarrow> rng" where
  "advance k g = (\<lambda>i. g (i + k))"

definition randint :: "rng \<Rightarrow> int \<Rightarrow> int \<Rightarrow> py_error + (int \<times> rng)" where
  "randint g a b =
     (if b < a then Inl ValueError
      else Inr (a + int (g 0 mod nat (b - a + 1)), advance 1 g))"

section \<open>The permutation test: \<^verbatim>\<open>calculate_p_value\<close>\<close>

text \<open>
  \<^verbatim>\<open>[uni_sample[random.randint(0, len(uni_sample) - 1)] for i in range(k)]\<close>
\<close>

fun resample :: "rng \<Rightarrow> int list \<Rightarrow> nat \<Rightarrow> py_error + (int list \<times> rng)" where
  "resample g uni_sample 0 = Inr ([], g)"
| "resample g uni_sample (Suc k) =
     (case randint g 0 (int (length uni_sample) - 1) of
        Inl e \<Rightarrow> Inl e
      | Inr (i, g1) \<Rightarrow>
          (case list_index uni_sample i of
             Inl e \<Rightarrow> Inl e
           | Inr v \<Rightarrow>
               (case resample g1 uni_sample k of
                  Inl e \<Rightarrow> Inl e
                | Inr (vs, g2) \<Rightarrow> Inr (v # vs, g2))))"

text \<open>
  The body of \<^verbatim>\<open>for x in range(10000)\<close>, with the number of iterations still to run as
  first argument and the running \<^verbatim>\<open>count\<close> as last, \<open>cnt\<close>.
\<close>

fun resample_loop ::
  "nat \<Rightarrow> rng \<Rightarrow> int list \<Rightarrow> nat \<Rightarrow> nat \<Rightarrow> rat \<Rightarrow> int \<Rightarrow> py_error + (int \<times> rng)" where
  "resample_loop 0 g uni_sample n m observed_diff cnt = Inr (cnt, g)"
| "resample_loop (Suc k) g uni_sample n m observed_diff cnt =
     (case resample g uni_sample n of
        Inl e \<Rightarrow> Inl e
      | Inr (a_resample, g1) \<Rightarrow>
          (case resample g1 uni_sample m of
             Inl e \<Rightarrow> Inl e
           | Inr (b_resample, g2) \<Rightarrow>
               (case true_div (sum_list a_resample) (int n) of
                  Inl e \<Rightarrow> Inl e
                | Inr mua \<Rightarrow>
                    (case true_div (sum_list b_resample) (int m) of
                       Inl e \<Rightarrow> Inl e
                     | Inr mub \<Rightarrow>
                         (let diff = float_abs (float_sub mua mub)
                          in resample_loop k g2 uni_sample n m observed_diff
                               (if observed_diff \<le> diff then cnt + 1 else cnt))))))"

definition observed_difference :: "int list \<Rightarrow> int list \<Rightarrow> py_error + rat" where
  \<comment> \<open>\<^verbatim>\<open>abs(sum(post_nums)/n - sum(llm_response_nums)/m)\<close>, the left quotient first\<close>
  "observed_difference post_nums llm_response_nums =
     (case true_div (sum_list post_nums) (int (length post_nums)) of
        Inl e \<Rightarrow> Inl e
      | Inr mp \<Rightarrow>
          (case true_div (sum_list llm_response_nums) (int (length llm_response_nums)) of
             Inl e \<Rightarrow> Inl e
           | Inr ml \<Rightarrow> Inr (float_abs (float_sub mp ml))))"

text \<open>
  \<^verbatim>\<open>calculate_p_value\<close> of \<^verbatim>\<open>main.py\<close> returns the two-element list of the observed
  difference, computed a second time, and the p-value; the result is paired with the random
  source as the call leaves it.
\<close>

definition calculate_p_value ::
  "rng \<Rightarrow> document_counts list \<Rightarrow> document_counts list \<Rightarrow> string
     \<Rightarrow> py_error + ((rat \<times> rat) \<times> rng)" where
  "calculate_p_value g posts llm_responses word =
     (let post_nums = map (\<lambda>post. dict_get post word 0) posts;
          llm_response_nums = map (\<lambda>response. dict_get response word 0) llm_responses;
          n = length post_nums;
          m = length llm_response_nums
      in case observed_difference post_nums llm_response_nums of
           Inl e \<Rightarrow> Inl e
         | Inr observed_diff \<Rightarrow>
             (let uni_sample = post_nums @ llm_response_nums
              in case resample_loop 10000 g uni_sample n m observed_diff 0 of
                   Inl e \<Rightarrow> Inl e
                 | Inr (cnt, g') \<Rightarrow>
                     (case observed_difference post_nums llm_response_nums of
                        Inl e \<Rightarrow> Inl e
                      | Inr d \<Rightarrow>
                          (case true_div cnt 10000 of
                             Inl e \<Rightarrow> Inl e
                           | Inr p \<Rightarrow> Inr ((d, p), g')))))"

text \<open>
  \<^verbatim>\<open>calculate_p_value\<close> of \<^verbatim>\<open>determine_p_values.py\<close> is the same procedure and returns
  the p-value alone.
\<close>

definition dpv_calculate_p_value ::
  "rng \<Rightarrow> document_counts list \<Rightarrow> document_counts list \<Rightarrow> string
     \<Rightarrow> py_error + (rat \<times> rng)" where
  "dpv_calculate_p_value g posts llm_responses word =
     (let post_nums = map (\<lambda>post. dict_get post word 0) posts;
          llm_response_nums = map (\<lambda>response. dict_get response word 0) llm_responses;
          n = length post_nums;
          m = length llm_response_nums
      in case observed_difference post_nums llm_response_nums of
           Inl e \<Rightarrow> Inl e
         | Inr observed_diff \<Rightarrow>
             (let uni_sample = post_nums @ llm_response_nums
              in case resample_loop 10000 g uni_sample n m observed_diff 0 of
                   Inl e \<Rightarrow> Inl e
                 | Inr (cnt, g') \<Rightarrow>
                     (case true_div cnt 10000 of
                        Inl e \<Rightarrow> Inl e
                      | Inr p \<Rightarrow> Inr (p, g'))))"

section \<open>The candidate word selector: \<^verbatim>\<open>make_y_most_common_word_dicts\<close>\<close>

text \<open>
  A CSV file is modelled by the rows that \<^verbatim>\<open>csv.reader\<close> yields for it, and the directory by
  a map from file names to files; opening a name that is not there raises.
\<close>

type_synonym csv_files = "string \<rightharpoonup> string list list"

fun read_common_words :: "int \<Rightarrow> int \<Rightarrow> string list list \<Rightarrow> string list \<Rightarrow> py_error + string list" where
  \<comment> \<open>\<^verbatim>\<open>for i, row in enumerate(reader)\<close> of \<^verbatim>\<open>x_most_common_words\<close>, from index \<open>i\<close> on\<close>
  "read_common_words x i [] data = Inr data"
| "read_common_words x i (row # rows) data =
     (if x \<le> i then Inr data
      else (case row of
              [] \<Rightarrow> Inl IndexError
            | w # _ \<Rightarrow> read_common_words x (i + 1) rows (data @ [w])))"

definition x_most_common_words :: "csv_files \<Rightarrow> int \<Rightarrow> py_error + string list" where
  "x_most_common_words files x =
     (case files ''unigram_freq.csv'' of
        None \<Rightarrow> Inl FileNotFoundError
      | Some rows \<Rightarrow> read_common_words x 0 rows [])"

text \<open>
  \<^verbatim>\<open>dataset_to_list\<close> returns from inside its loop over the rows; when the loop body never
  runs the function ends without a \<^verbatim>\<open>return\<close>, and its value is \<^verbatim>\<open>None\<close>.
\<close>

definition dataset_to_list :: "csv_files \<Rightarrow> string \<Rightarrow> py_error + string list option" where
  "dataset_to_list files file_path =
     (case files file_path of
        None \<Rightarrow> Inl FileNotFoundError
      | Some rows \<Rightarrow> (case rows of [] \<Rightarrow> Inr None | row # _ \<Rightarrow> Inr (Some row)))"

definition Counter :: "string list \<Rightarrow> (string \<times> int) list" where
  \<comment> \<open>\<^verbatim>\<open>Counter(words)\<close>: for each element in turn, \<^verbatim>\<open>c[w] = c.get(w, 0) + 1\<close>\<close>
  "Counter ws = foldl (\<lambda>c w. dict_set c w (dict_get c w 0 + 1)) [] ws"

text \<open>
  \<^verbatim>\<open>langdetect.detect\<close> is a parameter: it returns a language code or raises. A call of
  the library is an effect of the selector, so the model keeps the list \<open>calls\<close> of the words
  that were passed to \<^verbatim>\<open>detect\<close>, in the order of the calls. The loop over the words of
  \<^verbatim>\<open>counts\<close> calls \<^verbatim>\<open>detect\<close> first in its body, catches every exception of the body and
  goes on to the next word.
\<close>

type_synonym detector = "string \<Rightarrow> py_error + string"

fun keep_english ::
  "detector \<Rightarrow> (string \<times> int) list \<Rightarrow> string list \<Rightarrow> (string \<times> int) list \<Rightarrow> string list
     \<Rightarrow> (string \<times> int) list \<times> string list" where
  "keep_english detect counts [] discussion_dict calls = (discussion_dict, calls)"
| "keep_english detect counts (word # ws) discussion_dict calls =
     (case detect word of
        Inl e \<Rightarrow> keep_english detect counts ws discussion_dict (calls @ [word])
      | Inr lang \<Rightarrow>
          (if lang = ''en'' \<and> CHR 0x27 \<notin> set word
           then keep_english detect counts ws
                  (dict_set discussion_dict word (dict_get counts word 0)) (calls @ [word])
           else keep_english detect counts ws discussion_dict (calls @ [word])))"

definition discussion_dict ::
  "detector \<Rightarrow> string set \<Rightarrow> string list \<Rightarrow> (string \<times> int) list \<times> string list" where
  "discussion_dict detect words_to_exclude rows =
     (let discussion_list = [word \<leftarrow> rows. word \<notin> words_to_exclude];
          counts = Counter discussion_list
      in keep_english detect counts (map fst counts) [] [])"

definition llm_dict :: "string set \<Rightarrow> string list \<Rightarrow> (string \<times> int) list" where
  "llm_dict words_to_exclude rows =
     (let llm_list = [word \<leftarrow> rows. word \<notin> words_to_exclude]
      in Counter llm_list)"

text \<open>
  The order in which a Python \<^verbatim>\<open>set\<close> of strings is iterated is fixed by the hashes of
  the strings, which the interpreter salts anew in every process. It is modelled as the
  order of a key \<open>hash\<close> that is a parameter: every order of a given set is the order of
  some key.
\<close>

definition set_iteration :: "(string \<Rightarrow> int) \<Rightarrow> string list \<Rightarrow> string list" where
  "set_iteration hash ks = sort_key hash (remdups ks)"

fun dict_items_for :: "('k \<times> 'v) list \<Rightarrow> 'k list \<Rightarrow> ('k \<times> 'v) list \<Rightarrow> py_error + ('k \<times> 'v) list" where
  \<comment> \<open>\<^verbatim>\<open>{key: d[key] for key in keys}\<close>, with the dictionary built so far as last argument\<close>
  "dict_items_for d [] items = Inr items"
| "dict_items_for d (key # keys) items =
     (case map_of d key of
        None \<Rightarrow> Inl KeyError
      | Some v \<Rightarrow> dict_items_for d keys (dict_set items key v))"

definition most_common :: "int \<Rightarrow> (string \<times> int) list \<Rightarrow> (string \<times> int) list" where
  \<comment> \<open>\<^verbatim>\<open>Counter.most_common(n)\<close>, that is \<^verbatim>\<open>heapq.nlargest(n, items, key=count)\<close>:
      the greatest counts first, equal counts in the order of the items\<close>
  "most_common n items = take (nat n) (sort_key (\<lambda>item. - snd item) items)"

text \<open>
  The copies \<^verbatim>\<open>{i: discussion_dict[i] for i in discussion_dict}\<close>,
  \<^verbatim>\<open>{i: counts[i] for i in counts}\<close> and \<^verbatim>\<open>Counter({...})\<close> of a dictionary have the keys,
  the values and the order of the dictionary copied: they are the same association list. The
  last comprehension, \<^verbatim>\<open>{i[0]: i[1] for i in ...most_common(y)}\<close>, stores the pairs one after
  the other into an empty dictionary.
\<close>

text \<open>
  The selector returns its dictionary; the model pairs it with the calls of \<^verbatim>\<open>detect\<close>
  that the run has made.
\<close>

definition make_y_most_common_word_dicts ::
  "detector \<Rightarrow> (string \<Rightarrow> int) \<Rightarrow> csv_files \<Rightarrow> int \<Rightarrow> int \<Rightarrow> string \<Rightarrow> string
     \<Rightarrow> py_error + ((string \<times> int) list \<times> string list)" where
  "make_y_most_common_word_dicts detect hash files y x discussion_csv llm_csv =
     (case x_most_common_words files x of
        Inl e \<Rightarrow> Inl e
      | Inr common \<Rightarrow>
     (case dataset_to_list files discussion_csv of
        Inl e \<Rightarrow> Inl e
      | Inr discussion_list \<Rightarrow>
     (case dataset_to_list files llm_csv of
        Inl e \<Rightarrow> Inl e
      | Inr llm_list \<Rightarrow>
     (case discussion_list of
        None \<Rightarrow> Inl TypeError
      | Some discussion_rows \<Rightarrow>
     (case llm_list of
        None \<Rightarrow> Inl TypeError
      | Some llm_rows \<Rightarrow>
          (let words_to_exclude = set common
           in case discussion_dict detect words_to_exclude discussion_rows of
                (ddict, calls) \<Rightarrow>
                  (let ldict = llm_dict words_to_exclude llm_rows;
                       common_keys_set =
                         set_iteration hash [key \<leftarrow> map fst ddict. key \<in> set (map fst ldict)]
                   in case dict_items_for ddict common_keys_set [] of
                        Inl e \<Rightarrow> Inl e
                      | Inr items \<Rightarrow>
                          Inr (dict_update [] (most_common y items), calls))))))))"

section \<open>Filtering the documents: \<^verbatim>\<open>format_posts\<close>\<close>

text \<open>
  A JSON file of the program holds a list of three: the posts, the responses, and either
  the dictionary of the words to check (the file that \<^verbatim>\<open>write_all_relevant_data\<close> writes)
  or their list (the file that \<^verbatim>\<open>format_posts\<close> writes).
\<close>

datatype json_words = WordCounts "(string \<times> int) list" | WordList "string list"

type_synonym json_dump = "document_counts list \<times> document_counts list \<times> json_words"

type_synonym json_files = "string \<rightharpoonup> json_dump"

text \<open>
  \<^verbatim>\<open>json.load\<close> builds one dictionary object for every document, and the loops of
  \<^verbatim>\<open>format_posts\<close> delete keys from these objects while the lists \<^verbatim>\<open>posts\<close> and
  \<^verbatim>\<open>llm_responses\<close> refer to them. The objects live in a store, and the lists hold their
  addresses.
\<close>

type_synonym addr = nat

type_synonym heap = "addr \<Rightarrow> document_counts"

definition json_load :: "json_dump \<Rightarrow> (addr list \<times> addr list \<times> json_words) \<times> heap" where
  "json_load dump =
     (case dump of (posts, llm_responses, words) \<Rightarrow>
        (let n = length posts; m = length llm_responses; objects = posts @ llm_responses
         in (([0..<n], [n..<n + m], words),
             (\<lambda>a. if a < n + m then objects ! a else []))))"

fun del_keys :: "heap \<Rightarrow> addr \<Rightarrow> string list \<Rightarrow> py_error + heap" where
  \<comment> \<open>\<^verbatim>\<open>for key in keys_to_remove: del post[key]\<close>\<close>
  "del_keys h post [] = Inr h"
| "del_keys h post (key # keys) =
     (case dict_del (h post) key of
        Inl e \<Rightarrow> Inl e
      | Inr d \<Rightarrow> del_keys (h(post := d)) post keys)"

fun strip_documents :: "string set \<Rightarrow> heap \<Rightarrow> addr list \<Rightarrow> py_error + heap" where
  \<comment> \<open>\<^verbatim>\<open>for post in posts: ...\<close>\<close>
  "strip_documents words_to_check h [] = Inr h"
| "strip_documents words_to_check h (post # posts) =
     (let keys_to_remove = [key \<leftarrow> map fst (h post). key \<notin> words_to_check]
      in case del_keys h post keys_to_remove of
           Inl e \<Rightarrow> Inl e
         | Inr h' \<Rightarrow> strip_documents words_to_check h' posts)"

text \<open>
  \<^verbatim>\<open>open(path, 'w')\<close> creates the file in the directory that the path names, and raises
  \<^verbatim>\<open>FileNotFoundError\<close> when that directory does not exist. The directories that exist are
  the set \<open>directories\<close>; a path without a directory part names the working directory (or
  the root), which exists.
\<close>

definition parent_directory :: "string \<Rightarrow> string" where
  \<comment> \<open>the path up to its last \<open>/\<close>, empty when it has none\<close>
  "parent_directory path = rev (drop 1 (dropWhile (\<lambda>c. c \<noteq> CHR ''/'') (rev path)))"

definition can_create :: "string set \<Rightarrow> string \<Rightarrow> bool" where
  "can_create directories path =
     (parent_directory path = [] \<or> parent_directory path \<in> directories)"

definition format_posts ::
  "(string \<Rightarrow> int) \<Rightarrow> string set \<Rightarrow> json_files \<Rightarrow> string \<Rightarrow> py_error + json_files" where
  "format_posts hash directories files json_path =
     (case files json_path of
        None \<Rightarrow> Inl FileNotFoundError
      | Some dump \<Rightarrow>
          (case json_load dump of ((posts, llm_responses, words), h) \<Rightarrow>
             (case words of
                WordList ws \<Rightarrow> Inl AttributeError
              | WordCounts d \<Rightarrow>
                  (let words_to_check = set (map fst d)
                   in case strip_documents words_to_check h posts of
                        Inl e \<Rightarrow> Inl e
                      | Inr h1 \<Rightarrow>
                          (case strip_documents words_to_check h1 llm_responses of
                             Inl e \<Rightarrow> Inl e
                           | Inr h2 \<Rightarrow>
                               (if can_create directories (''second_'' @ json_path)
                                then Inr (files(''second_'' @ json_path \<mapsto>
                                            (map h2 posts, map h2 llm_responses,
                                             WordList (set_iteration hash (map fst d)))))
                                else Inl FileNotFoundError))))))"

section \<open>The batch driver: \<^verbatim>\<open>calculate_p_values\<close> and \<^verbatim>\<open>calculate_p_values_from_scratch\<close>\<close>

type_synonym p_values = "(string \<times> (rat \<times> rat)) list"

fun p_values_loop ::
  "rng \<Rightarrow> document_counts list \<Rightarrow> document_counts list \<Rightarrow> string list \<Rightarrow> p_values
     \<Rightarrow> py_error + (p_values \<times> rng)" where
  \<comment> \<open>\<^verbatim>\<open>for word in words_to_check: final_p_values[word] = calculate_p_value(...)\<close>\<close>
  "p_values_loop g posts llm_responses [] final_p_values = Inr (final_p_values, g)"
| "p_values_loop g posts llm_responses (word # ws) final_p_values =
     (case calculate_p_value g posts llm_responses word of
        Inl e \<Rightarrow> Inl e
      | Inr (r, g') \<Rightarrow>
          p_values_loop g' posts llm_responses ws (dict_set final_p_values word r))"

definition calculate_p_values :: "rng \<Rightarrow> json_files \<Rightarrow> string \<Rightarrow> py_error + (p_values \<times> rng)" where
  "calculate_p_values g files json_path =
     (case files (''second_'' @ json_path) of
        None \<Rightarrow> Inl FileNotFoundError
      | Some dump \<Rightarrow>
          (case dump of (posts, llm_responses, words) \<Rightarrow>
             (let words_to_check = (case words of WordList ws \<Rightarrow> ws | WordCounts d \<Rightarrow> map fst d)
              in p_values_loop g posts llm_responses words_to_check [])))"

text \<open>
  \<^verbatim>\<open>calculate_p_values_from_scratch\<close> first calls \<^verbatim>\<open>write_all_relevant_data\<close>, which scrapes
  the forum, queries the language model and writes one JSON file per trial. Its outcome is a
  parameter: the list \<open>paths\<close> that it returns, and the files and directories that are on the
  disk when the loop over the paths starts.
\<close>

fun trials_loop ::
  "(string \<Rightarrow> int) \<Rightarrow> string set \<Rightarrow> rng \<Rightarrow> json_files \<Rightarrow> string list \<Rightarrow> p_values list
     \<Rightarrow> py_error + (p_values list \<times> rng \<times> json_files)" where
  \<comment> \<open>\<^verbatim>\<open>for path in paths: format_posts(path); p_values.append(calculate_p_values(path))\<close>\<close>
  "trials_loop hash directories g files [] p_values = Inr (p_values, g, files)"
| "trials_loop hash directories g files (path # paths) p_values =
     (case format_posts hash directories files path of
        Inl e \<Rightarrow> Inl e
      | Inr files' \<Rightarrow>
          (case calculate_p_values g files' path of
             Inl e \<Rightarrow> Inl e
           | Inr (d, g') \<Rightarrow> trials_loop hash directories g' files' paths (p_values @ [d])))"

definition calculate_p_values_from_scratch ::
  "(string \<Rightarrow> int) \<Rightarrow> string set \<Rightarrow> rng \<Rightarrow> json_files \<Rightarrow> string list
     \<Rightarrow> py_error + (p_values \<times> rng \<times> json_files)" where
  "calculate_p_values_from_scratch hash directories g files paths =
     (case trials_loop hash directories g files paths [] of
        Inl e \<Rightarrow> Inl e
      | Inr (p_values, g', files') \<Rightarrow> Inr (foldl dict_update [] p_values, g', files'))"

section \<open>The test procedure in the words of the specification\<close>

text \<open>
  The definitions of this section follow section 4.4 of the specification, not the source:
  the per-document values of a word, the mean, the index of the \<open>j\<close>-th draw from a pool
  of \<open>N\<close> values, the resamples \<open>A\<close> and \<open>B\<close> of iteration \<open>x\<close>, their difference, and the
  counter after \<open>R\<close> iterations. Iteration \<open>x\<close> takes the draws \<open>x * (n + m)\<close> up to
  \<open>(x + 1) * (n + m)\<close> of the random source, the first \<open>n\<close> of them for \<open>A\<close>.
\<close>

definition document_values :: "document_counts list \<Rightarrow> string \<Rightarrow> int list" where
  "document_values corpus word = map (\<lambda>d. dict_get d word 0) corpus"

definition mean :: "int list \<Rightarrow> rat" where
  "mean xs = fl (of_int (sum_list xs) / of_nat (length xs))"

definition observedDiff :: "int list \<Rightarrow> int list \<Rightarrow> rat" where
  "observedDiff communityValues generatedValues =
     \<bar>fl (mean communityValues - mean generatedValues)\<bar>"

definition drawn_index :: "rng \<Rightarrow> nat \<Rightarrow> nat \<Rightarrow> nat" where
  "drawn_index g N j = g j mod N"

definition resample_A :: "rng \<Rightarrow> int list \<Rightarrow> nat \<Rightarrow> nat \<Rightarrow> nat \<Rightarrow> int list" where
  "resample_A g pool n m x =
     map (\<lambda>j. pool ! drawn_index g (length pool) (x * (n + m) + j)) [0..<n]"

definition resample_B :: "rng \<Rightarrow> int list \<Rightarrow> nat \<Rightarrow> nat \<Rightarrow> nat \<Rightarrow> int list" where
  "resample_B g pool n m x =
     map (\<lambda>j. pool ! drawn_index g (length pool) (x * (n + m) + n + j)) [0..<m]"

definition resample_diff :: "rng \<Rightarrow> int list \<Rightarrow> nat \<Rightarrow> nat \<Rightarrow> nat \<Rightarrow> rat" where
  "resample_diff g pool n m x =
     \<bar>fl (mean (resample_A g pool n m x) - mean (resample_B g pool n m x))\<bar>"

definition resample_counter :: "rng \<Rightarrow> int list \<Rightarrow> nat \<Rightarrow> nat \<Rightarrow> rat \<Rightarrow> nat \<Rightarrow> nat" where
  "resample_counter g pool n m observed R =
     length (filter (\<lambda>x. observed \<le> resample_diff g pool n m x) [0..<R])"

text \<open>
  The words that survive the three filters of the selector (section 4.3 of the
  specification): in both word lists, outside the exclusion set, classified as English, and
  without an apostrophe.
\<close>

definition survivors :: "detector \<Rightarrow> string set \<Rightarrow> string list \<Rightarrow> string list \<Rightarrow> string set" where
  "survivors detect exclude communityWords generatedWords =
     {w \<in> set communityWords \<inter> set generatedWords.
        w \<notin> exclude \<and> detect w = Inr ''en'' \<and> CHR 0x27 \<notin> set w}"

definition empirical_p_value :: "rng \<Rightarrow> int list \<Rightarrow> int list \<Rightarrow> rat" where
  "empirical_p_value g communityValues generatedValues =
     (let n = length communityValues; m = length generatedValues;
          pool = communityValues @ generatedValues
      in fl (of_nat (resample_counter g pool n m (observedDiff communityValues generatedValues) 10000)
             / 10000))"

section \<open>A small run of the selector\<close>

text \<open>
  Three files and a detector on which the selector is evaluated: the first two rows of the
  frequency table, a community word list, a generated word list, and a detector that
  raises on one word.
\<close>

definition example_files :: csv_files where
  "example_files =
     [''unigram_freq.csv'' \<mapsto> [[''the'', ''23135851162''], [''of'', ''13151942776'']],
      ''words.csv'' \<mapsto> [[''game'', ''the'', ''hike'', ''game'', ''zzz'']],
      ''llm.csv'' \<mapsto> [[''hike'', ''the'', ''game'', ''zzz'', ''fun'']]]"

definition example_detect :: detector where
  "example_detect w = (if w = ''zzz'' then Inl ValueError else Inr ''en'')"

section \<open>Facts about the permutation test\<close>

lemma fl_zero: "fl 0 = 0"
  by (simp add: fl_def)

lemma fl_one: "fl 1 = 1"
  by (simp add: fl_def binary_exponent_def round_half_even_def)

lemma fl_two: "fl 2 = 2"
  by (simp add: fl_def binary_exponent_def round_half_even_def)

lemma randint_in_range:
  "0 < N \<Longrightarrow> randint g 0 (int N - 1) = Inr (int (g 0 mod N), advance 1 g)"
  by (simp add: randint_def)

lemma list_index_in_range:
  "i < length xs \<Longrightarrow> list_index xs (int i) = Inr (xs ! i)"
  by (simp add: list_index_def)

lemma advance_advance: "advance a (advance b g) = advance (a + b) g"
  by (simp add: advance_def fun_eq_iff add.assoc)

lemma true_div_nonzero: "b \<noteq> 0 \<Longrightarrow> true_div a b = Inr (fl (of_int a / of_int b))"
  by (simp add: true_div_def)

text \<open>A list comprehension of \<open>k\<close> draws reads the next \<open>k\<close> outcomes of the source.\<close>

lemma resample_eq:
  "uni \<noteq> [] \<Longrightarrow>
   resample g uni k = Inr (map (\<lambda>j. uni ! (g j mod length uni)) [0..<k], advance k g)"
proof (induction k arbitrary: g)
  case 0
  then show ?case by (simp add: advance_def)
next
  case (Suc k)
  have len: "0 < length uni" using Suc.prems by simp
  have idx: "g 0 mod length uni < length uni" using len by simp
  have shift: "map (\<lambda>j. uni ! (g j mod length uni)) [0..<Suc k] =
      uni ! (g 0 mod length uni) # map (\<lambda>j. uni ! (advance 1 g j mod length uni)) [0..<k]"
    by (simp add: upt_conv_Cons map_Suc_upt [symmetric] advance_def del: upt_Suc)
  show ?case
    by (simp only: resample.simps randint_in_range [OF len] sum.case prod.case
        list_index_in_range [OF idx] Suc.IH [OF Suc.prems] shift advance_advance)
       simp
qed

lemma resample_A_advance:
  "resample_A (advance (n + m) g) pool n m x = resample_A g pool n m (Suc x)"
  by (simp add: resample_A_def drawn_index_def advance_def add.assoc add.commute add.left_commute)

lemma resample_B_advance:
  "resample_B (advance (n + m) g) pool n m x = resample_B g pool n m (Suc x)"
  by (simp add: resample_B_def drawn_index_def advance_def add.assoc add.commute add.left_commute)

lemma resample_counter_Suc:
  "resample_counter g pool n m obs (Suc k) =
     (if obs \<le> resample_diff g pool n m 0 then 1 else 0)
       + resample_counter (advance (n + m) g) pool n m obs k"
proof -
  have "[0..<Suc k] = 0 # map Suc [0..<k]"
    by (simp add: upt_conv_Cons map_Suc_upt del: upt_Suc)
  moreover have "\<And>x. resample_diff (advance (n + m) g) pool n m x = resample_diff g pool n m (Suc x)"
    by (simp add: resample_diff_def resample_A_advance resample_B_advance)
  ultimately show ?thesis
    by (simp add: resample_counter_def filter_map o_def del: upt_Suc)
qed

lemma resample_counter_le: "resample_counter g pool n m obs R \<le> R"
  unfolding resample_counter_def by (rule order_trans [OF length_filter_le]) simp

lemma resample_counter_zero: "resample_counter g pool n m 0 R = R"
  by (simp add: resample_counter_def resample_diff_def)

lemma resample_counter_none:
  "(\<And>x. resample_diff g pool n m x < obs) \<Longrightarrow> resample_counter g pool n m obs R = 0"
  by (simp add: resample_counter_def not_le)

text \<open>The loop: \<open>k\<close> iterations add to the count the iterations whose difference reaches the
  observed one, and read \<open>k * (n + m)\<close> outcomes.\<close>

lemma resample_loop_eq:
  assumes "uni \<noteq> []" "0 < n" "0 < m"
  shows "resample_loop k g uni n m obs c =
           Inr (c + int (resample_counter g uni n m obs k), advance (k * (n + m)) g)"
proof (induction k arbitrary: g c)
  case 0
  show ?case by (simp add: resample_counter_def advance_def)
next
  case (Suc k)
  have a: "resample g uni n = Inr (resample_A g uni n m 0, advance n g)"
    by (simp add: resample_eq [OF assms(1)] resample_A_def drawn_index_def)
  have b: "resample (advance n g) uni m = Inr (resample_B g uni n m 0, advance (n + m) g)"
    by (simp add: resample_eq [OF assms(1)] resample_B_def drawn_index_def advance_advance
        add.commute) (simp add: advance_def add.commute)
  have la: "length (resample_A g uni n m 0) = n" and lb: "length (resample_B g uni n m 0) = m"
    by (simp_all add: resample_A_def resample_B_def)
  have mua: "true_div (sum_list (resample_A g uni n m 0)) (int n) = Inr (mean (resample_A g uni n m 0))"
    using assms(2) by (simp add: true_div_nonzero mean_def la)
  have mub: "true_div (sum_list (resample_B g uni n m 0)) (int m) = Inr (mean (resample_B g uni n m 0))"
    using assms(3) by (simp add: true_div_nonzero mean_def lb)
  have d: "float_abs (float_sub (mean (resample_A g uni n m 0)) (mean (resample_B g uni n m 0)))
             = resample_diff g uni n m 0"
    by (simp add: float_abs_def float_sub_def resample_diff_def)
  have adv: "advance (k * (n + m)) (advance (n + m) g) = advance (Suc k * (n + m)) g"
    by (simp add: advance_advance add.commute)
  show ?case
    by (simp only: resample_loop.simps a b mua mub sum.case prod.case Let_def d Suc.IH
        resample_counter_Suc adv)
       simp
qed

lemma length_document_values: "length (document_values corpus word) = length corpus"
  by (simp add: document_values_def)

lemma observed_difference_eq:
  "c \<noteq> [] \<Longrightarrow> l \<noteq> [] \<Longrightarrow> observed_difference c l = Inr (observedDiff c l)"
  by (simp add: observed_difference_def true_div_nonzero mean_def float_abs_def float_sub_def
      observedDiff_def)

lemma observed_difference_empty:
  "c = [] \<or> l = [] \<Longrightarrow> observed_difference c l = Inl ZeroDivisionError"
  by (auto simp add: observed_difference_def true_div_def)

lemma calculate_p_value_eq:
  assumes "posts \<noteq> []" "llm_responses \<noteq> []"
  shows "calculate_p_value g posts llm_responses word =
     Inr ((observedDiff (document_values posts word) (document_values llm_responses word),
           empirical_p_value g (document_values posts word) (document_values llm_responses word)),
          advance (10000 * (length posts + length llm_responses)) g)"
proof -
  let ?c = "document_values posts word" and ?l = "document_values llm_responses word"
  have ne: "?c \<noteq> []" "?l \<noteq> []" "?c @ ?l \<noteq> []"
    using assms by (simp_all add: document_values_def)
  have pos: "0 < length posts" "0 < length llm_responses" using assms by simp_all
  show ?thesis
    unfolding calculate_p_value_def Let_def document_values_def [symmetric]
    by (simp add: observed_difference_eq [OF ne(1,2)] empirical_p_value_def
        resample_loop_eq [OF ne(3) pos] true_div_nonzero length_document_values)
qed

lemma dpv_calculate_p_value_eq:
  assumes "posts \<noteq> []" "llm_responses \<noteq> []"
  shows "dpv_calculate_p_value g posts llm_responses word =
     Inr (empirical_p_value g (document_values posts word) (document_values llm_responses word),
          advance (10000 * (length posts + length llm_responses)) g)"
proof -
  let ?c = "document_values posts word" and ?l = "document_values llm_responses word"
  have ne: "?c \<noteq> []" "?l \<noteq> []" "?c @ ?l \<noteq> []"
    using assms by (simp_all add: document_values_def)
  have pos: "0 < length posts" "0 < length llm_responses" using assms by simp_all
  show ?thesis
    unfolding dpv_calculate_p_value_def Let_def document_values_def [symmetric]
    by (simp add: observed_difference_eq [OF ne(1,2)] empirical_p_value_def
        resample_loop_eq [OF ne(3) pos] true_div_nonzero length_document_values)
qed

lemma calculate_p_value_empty:
  "posts = [] \<or> llm_responses = [] \<Longrightarrow>
     calculate_p_value g posts llm_responses word = Inl ZeroDivisionError"
  unfolding calculate_p_value_def Let_def
  by (subst observed_difference_empty) auto

lemma dpv_calculate_p_value_empty:
  "posts = [] \<or> llm_responses = [] \<Longrightarrow>
     dpv_calculate_p_value g posts llm_responses word = Inl ZeroDivisionError"
  unfolding dpv_calculate_p_value_def Let_def
  by (subst observed_difference_empty) auto

lemma mean_mset: "mset xs = mset ys \<Longrightarrow> mean xs = mean ys"
proof -
  assume h: "mset xs = mset ys"
  have "sum_list xs = sum_list ys"
    using h by (metis sum_mset_sum_list)
  moreover have "length xs = length ys"
    using h by (metis size_mset)
  ultimately show ?thesis by (simp add: mean_def)
qed

text \<open>
  C1. For corpora of \<open>n \<ge> 1\<close> community and \<open>m \<ge> 1\<close> generated documents, the test pools
  the \<open>n + m\<close> per-document counts of the word, runs 10000 iterations, draws in each a
  resample \<open>A\<close> of \<open>n\<close> and a resample \<open>B\<close> of \<open>m\<close> values of the pool with replacement, every
  index below \<open>n + m\<close>, counts the iterations with \<open>\<bar>mean A - mean B\<bar> \<ge> observedDiff\<close>, and
  returns the counter divided by 10000; this holds for every outcome of the random source,
  and for the function of \<^verbatim>\<open>main.py\<close> as for the one of \<^verbatim>\<open>determine_p_values.py\<close>.
\<close>

theorem permutation_test_procedure:
  fixes posts llm_responses :: "document_counts list" and word :: string and g :: rng
    and c l :: "int list" and n m :: nat
  assumes "posts \<noteq> []" and "llm_responses \<noteq> []"
  defines "c \<equiv> document_values posts word"
    and "l \<equiv> document_values llm_responses word"
    and "n \<equiv> length posts"
    and "m \<equiv> length llm_responses"
  shows "calculate_p_value g posts llm_responses word =
           Inr ((observedDiff c l,
                 fl (of_nat (resample_counter g (c @ l) n m (observedDiff c l) 10000) / 10000)),
                advance (10000 * (n + m)) g)
       \<and> dpv_calculate_p_value g posts llm_responses word =
           Inr (fl (of_nat (resample_counter g (c @ l) n m (observedDiff c l) 10000) / 10000),
                advance (10000 * (n + m)) g)
       \<and> length (c @ l) = n + m
       \<and> (\<forall>x<10000. length (resample_A g (c @ l) n m x) = n
                    \<and> length (resample_B g (c @ l) n m x) = m)
       \<and> (\<forall>j. drawn_index g (length (c @ l)) j < n + m)
       \<and> resample_counter g (c @ l) n m (observedDiff c l) 10000
           = card {x. x < 10000 \<and> observedDiff c l \<le> resample_diff g (c @ l) n m x}"
proof -
  have len: "length (c @ l) = n + m"
    by (simp add: c_def l_def n_def m_def length_document_values)
  have pos: "0 < n + m" using assms(1) by (simp add: n_def)
  have card: "resample_counter g (c @ l) n m (observedDiff c l) 10000
           = card {x. x < 10000 \<and> observedDiff c l \<le> resample_diff g (c @ l) n m x}"
  proof -
    have "{x. x < 10000 \<and> observedDiff c l \<le> resample_diff g (c @ l) n m x}
        = set (filter (\<lambda>x. observedDiff c l \<le> resample_diff g (c @ l) n m x) [0..<10000])"
      by auto
    then show ?thesis
      by (simp only: resample_counter_def distinct_card [OF distinct_filter [OF distinct_upt]])
  qed
  have main: "calculate_p_value g posts llm_responses word =
           Inr ((observedDiff c l,
                 fl (of_nat (resample_counter g (c @ l) n m (observedDiff c l) 10000) / 10000)),
                advance (10000 * (n + m)) g)"
    using calculate_p_value_eq [OF assms(1,2), of g word]
    by (simp add: empirical_p_value_def Let_def c_def l_def n_def m_def length_document_values)
  have dpv: "dpv_calculate_p_value g posts llm_responses word =
           Inr (fl (of_nat (resample_counter g (c @ l) n m (observedDiff c l) 10000) / 10000),
                advance (10000 * (n + m)) g)"
    using dpv_calculate_p_value_eq [OF assms(1,2), of g word]
    by (simp add: empirical_p_value_def Let_def c_def l_def n_def m_def length_document_values)
  have lens: "\<forall>x<10000. length (resample_A g (c @ l) n m x) = n
                    \<and> length (resample_B g (c @ l) n m x) = m"
    by (simp add: resample_A_def resample_B_def)
  have idx: "\<forall>j. drawn_index g (length (c @ l)) j < n + m"
    using pos len by (simp add: drawn_index_def)
  show ?thesis
    using main dpv len lens idx card by blast
qed

theorem permutation_test_procedure_witness:
  "[[(''x'', 2::int)]] \<noteq> [] \<and> [[] :: document_counts] \<noteq> []
   \<and> calculate_p_value (\<lambda>k. 0) [[(''x'', 2)]] [[]] ''x'' = Inr ((2, 0), advance 20000 (\<lambda>k. 0))
   \<and> dpv_calculate_p_value (\<lambda>k. 0) [[(''x'', 2)]] [[]] ''x'' = Inr (0, advance 20000 (\<lambda>k. 0))"
proof -
  have ne: "[[(''x'', 2::int)]] \<noteq> []" "[[] :: document_counts] \<noteq> []"
    by simp_all
  have c: "document_values [[(''x'', 2)]] ''x'' = [2]"
    and l: "document_values [[]] ''x'' = [0]"
    by (simp_all add: document_values_def dict_get_def)
  have obs: "observedDiff [2] [0] = 2"
    by (simp add: observedDiff_def mean_def fl_two fl_zero)
  have "\<And>x. resample_diff (\<lambda>k. 0) [2, 0] (Suc 0) (Suc 0) x = 0"
    by (simp add: resample_diff_def resample_A_def resample_B_def drawn_index_def mean_def fl_zero)
  then have cnt: "resample_counter (\<lambda>k. 0) [2, 0] (Suc 0) (Suc 0) 2 10000 = 0"
    by (intro resample_counter_none) simp
  note t = permutation_test_procedure [OF ne, of "\<lambda>k. 0" "''x''"]
  have main: "calculate_p_value (\<lambda>k. 0) [[(''x'', 2)]] [[]] ''x''
      = Inr ((2, 0), advance 20000 (\<lambda>k. 0))"
    using t [THEN conjunct1] by (simp add: c l obs cnt fl_zero)
  have dpv: "dpv_calculate_p_value (\<lambda>k. 0) [[(''x'', 2)]] [[]] ''x''
      = Inr (0, advance 20000 (\<lambda>k. 0))"
    using t [THEN conjunct2, THEN conjunct1] by (simp add: c l obs cnt fl_zero)
  show ?thesis using ne main dpv by blast
qed

text \<open>
  C2. The observed statistic that the test computes is
  \<open>\<bar>mean communityValues - mean generatedValues\<bar>\<close> over the per-document counts
  \<^verbatim>\<open>get(word, 0)\<close> of the two corpora, and it is the first component of the result of
  \<^verbatim>\<open>main.py\<close>; for the counts \<open>[2, 0, 1]\<close> and \<open>[0, 0, 0]\<close> it is \<open>1\<close>.
\<close>

theorem observed_statistic:
  fixes posts llm_responses :: "document_counts list" and word :: string and g :: rng
    and c l :: "int list"
  assumes "posts \<noteq> []" and "llm_responses \<noteq> []"
  defines "c \<equiv> map (\<lambda>d. dict_get d word 0) posts"
    and "l \<equiv> map (\<lambda>d. dict_get d word 0) llm_responses"
  shows "observed_difference c l = Inr \<bar>fl (mean c - mean l)\<bar>
       \<and> (\<exists>p g'. calculate_p_value g posts llm_responses word
                   = Inr ((\<bar>fl (mean c - mean l)\<bar>, p), g'))
       \<and> observed_difference [2, 0, 1] [0, 0, 0] = Inr 1"
proof -
  have ne: "c \<noteq> []" "l \<noteq> []" using assms(1,2) by (simp_all add: c_def l_def)
  have cl: "c = document_values posts word" "l = document_values llm_responses word"
    by (simp_all add: c_def l_def document_values_def)
  have 1: "observed_difference c l = Inr \<bar>fl (mean c - mean l)\<bar>"
    using observed_difference_eq [OF ne] by (simp add: observedDiff_def)
  have 2: "\<exists>p g'. calculate_p_value g posts llm_responses word
                   = Inr ((\<bar>fl (mean c - mean l)\<bar>, p), g')"
    using calculate_p_value_eq [OF assms(1,2), of g word] by (simp add: observedDiff_def cl)
  have 3: "observed_difference [2, 0, 1] [0, 0, 0] = Inr 1"
    by (simp add: observed_difference_def true_div_def float_abs_def float_sub_def fl_one fl_zero)
  show ?thesis using 1 2 3 by blast
qed

theorem observed_statistic_witness:
  "[[(''x'', 2::int)], [], [(''y'', 3), (''x'', 1)]] \<noteq> []
   \<and> [[], [(''y'', 1::int)], []] \<noteq> []
   \<and> map (\<lambda>d. dict_get d ''x'' 0) [[(''x'', 2::int)], [], [(''y'', 3), (''x'', 1)]] = [2, 0, 1]
   \<and> map (\<lambda>d. dict_get d ''x'' 0) [[], [(''y'', 1::int)], []] = [0, 0, 0]
   \<and> (\<exists>p g'. calculate_p_value (\<lambda>k. 0) [[(''x'', 2)], [], [(''y'', 3), (''x'', 1)]]
                 [[], [(''y'', 1)], []] ''x'' = Inr ((1, p), g'))"
proof -
  have m1: "mean [2, 0, 1] = 1" and m0: "mean [0, 0, 0] = 0"
    by (simp_all add: mean_def fl_one fl_zero)
  show ?thesis
    using observed_statistic [of "[[(''x'', 2)], [], [(''y'', 3), (''x'', 1)]]"
        "[[], [(''y'', 1)], []]" "''x''" "\<lambda>k. 0"]
    by (simp add: dict_get_def m1 m0 fl_one)
qed

text \<open>
  C3, as the code has it. When either corpus is empty the test raises the
  \<^verbatim>\<open>ZeroDivisionError\<close> of the division in the mean: it returns no value, and the error is
  Python's own, not a domain error.
\<close>

theorem empty_corpus_zero_division:
  "posts = [] \<or> llm_responses = [] \<Longrightarrow>
     calculate_p_value g posts llm_responses word = Inl ZeroDivisionError
   \<and> dpv_calculate_p_value g posts llm_responses word = Inl ZeroDivisionError"
  by (simp add: calculate_p_value_empty dpv_calculate_p_value_empty)

theorem empty_corpus_zero_division_witness:
  "([] = ([] :: document_counts list) \<or> [[(''x'', 1::int)]] = [])
   \<and> calculate_p_value (\<lambda>k. 0) [] [[(''x'', 1)]] ''x'' = Inl ZeroDivisionError
   \<and> dpv_calculate_p_value (\<lambda>k. 0) [] [[(''x'', 1)]] ''x'' = Inl ZeroDivisionError"
  using empty_corpus_zero_division [of "[]" "[[(''x'', 1)]]" "\<lambda>k. 0" "''x''"] by simp

theorem empty_corpus_counterexample:
  "calculate_p_value (\<lambda>k. 0) [] [[(''x'', 1)]] ''x'' = Inl ZeroDivisionError
   \<and> calculate_p_value (\<lambda>k. 0) [] [[(''x'', 1)]] ''x'' \<noteq> Inl DegenerateInputError
   \<and> calculate_p_value (\<lambda>k. 0) [[(''x'', 1)]] [] ''x'' = Inl ZeroDivisionError
   \<and> calculate_p_value (\<lambda>k. 0) [[(''x'', 1)]] [] ''x'' \<noteq> Inl DegenerateInputError"
  by (simp add: calculate_p_value_empty)

text \<open>
  C8. When the per-document values of the word in the two corpora are the same multiset
  (of at least one document), the observed difference is \<open>0\<close>, each of the 10000 iterations
  increments the counter, and the p-value returned is \<open>1\<close>.
\<close>

theorem identical_values_p_value_one:
  assumes "posts \<noteq> []"
    and "mset (document_values posts word) = mset (document_values llm_responses word)"
  shows "calculate_p_value g posts llm_responses word =
           Inr ((0, 1), advance (10000 * (length posts + length llm_responses)) g)
       \<and> dpv_calculate_p_value g posts llm_responses word =
           Inr (1, advance (10000 * (length posts + length llm_responses)) g)
       \<and> observedDiff (document_values posts word) (document_values llm_responses word) = 0
       \<and> resample_counter g (document_values posts word @ document_values llm_responses word)
           (length posts) (length llm_responses) 0 10000 = 10000"
proof -
  have ne: "llm_responses \<noteq> []"
    using assms by (auto simp: document_values_def)
  have obs: "observedDiff (document_values posts word) (document_values llm_responses word) = 0"
    by (simp add: observedDiff_def mean_mset [OF assms(2)] fl_zero)
  show ?thesis
    by (simp add: calculate_p_value_eq [OF assms(1) ne] dpv_calculate_p_value_eq [OF assms(1) ne]
        empirical_p_value_def obs resample_counter_zero fl_one)
qed

theorem identical_values_p_value_one_witness:
  "[[(''x'', 2::int)], []] \<noteq> []
   \<and> mset (document_values [[(''x'', 2)], []] ''x'') = mset (document_values [[], [(''x'', 2)]] ''x'')
   \<and> calculate_p_value (\<lambda>k. k) [[(''x'', 2)], []] [[], [(''x'', 2)]] ''x''
       = Inr ((0, 1), advance 40000 (\<lambda>k. k))"
proof -
  have h: "mset (document_values [[(''x'', 2)], []] ''x'') = mset (document_values [[], [(''x'', 2)]] ''x'')"
    by (simp add: document_values_def dict_get_def)
  show ?thesis
    using identical_values_p_value_one [of "[[(''x'', 2)], []]" "''x''" "[[], [(''x'', 2)]]" "\<lambda>k. k"] h
    by simp
qed

section \<open>Facts about dictionaries\<close>

lemma keys_dict_set: "fst ` set (dict_set d k v) = insert k (fst ` set d)"
  by (induction d k v rule: dict_set.induct) auto

lemma distinct_dict_set:
  "distinct (map fst d) \<Longrightarrow> distinct (map fst (dict_set d k v))"
proof (induction d k v rule: dict_set.induct)
  case (1 k v)
  then show ?case by simp
next
  case (2 k' v' kvs k v)
  then show ?case
    using keys_dict_set [of kvs k v] by (auto simp: image_iff)
qed

lemma map_of_dict_set: "map_of (dict_set d k v) = (map_of d)(k \<mapsto> v)"
  by (induction d k v rule: dict_set.induct) (auto simp: fun_eq_iff)

lemma keys_foldl_Counter:
  "fst ` set (foldl (\<lambda>c w. dict_set c w (dict_get c w 0 + 1)) acc ws) = fst ` set acc \<union> set ws"
  by (induction ws arbitrary: acc) (auto simp: keys_dict_set)

lemma distinct_foldl_Counter:
  "distinct (map fst acc) \<Longrightarrow>
   distinct (map fst (foldl (\<lambda>c w. dict_set c w (dict_get c w (0::int) + 1)) acc ws))"
  by (induction ws arbitrary: acc) (auto simp: distinct_dict_set)

lemma dict_get_foldl_Counter:
  "dict_get (foldl (\<lambda>c w. dict_set c w (dict_get c w 0 + 1)) acc ws) k 0
     = dict_get acc k 0 + int (count_list ws k)"
  by (induction ws arbitrary: acc) (auto simp: dict_get_def map_of_dict_set)

lemma keys_Counter: "fst ` set (Counter ws) = set ws"
  by (simp add: Counter_def keys_foldl_Counter)

lemma distinct_Counter: "distinct (map fst (Counter ws))"
  by (simp add: Counter_def distinct_foldl_Counter)

lemma dict_get_Counter: "dict_get (Counter ws) k 0 = int (count_list ws k)"
proof -
  have "dict_get ([] :: (string \<times> int) list) k 0 = 0"
    by (simp add: dict_get_def)
  then show ?thesis
    by (simp add: Counter_def dict_get_foldl_Counter)
qed

lemma map_of_in_keys: "k \<in> fst ` set d \<Longrightarrow> map_of d k = Some (dict_get d k dflt)"
  by (cases "map_of d k") (auto simp: dict_get_def map_of_eq_None_iff)

section \<open>Facts about the selector\<close>

lemma keys_keep_english:
  "fst ` set (fst (keep_english detect counts ws acc calls))
     = fst ` set acc \<union> {w \<in> set ws. detect w = Inr ''en'' \<and> CHR 0x27 \<notin> set w}"
  by (induction detect counts ws acc calls rule: keep_english.induct)
     (auto simp: keys_dict_set split: sum.splits)

lemma distinct_keep_english:
  "distinct (map fst acc) \<Longrightarrow>
   distinct (map fst (fst (keep_english detect counts ws acc calls)))"
  by (induction detect counts ws acc calls rule: keep_english.induct)
     (auto simp: distinct_dict_set split: sum.splits)

lemma map_of_keep_english:
  "map_of (fst (keep_english detect counts ws acc calls)) k = Some v \<Longrightarrow>
     map_of acc k = Some v \<or> (k \<in> set ws \<and> v = dict_get counts k 0)"
  by (induction detect counts ws acc calls rule: keep_english.induct)
     (auto simp: map_of_dict_set split: sum.splits if_splits)

text \<open>The detector is called on every word of the loop, once and in order, whatever it
  returns or raises.\<close>

lemma calls_keep_english:
  "snd (keep_english detect counts ws acc calls) = calls @ ws"
  by (induction detect counts ws acc calls rule: keep_english.induct)
     (auto split: sum.splits)

lemma keys_discussion_dict:
  "fst ` set (fst (discussion_dict detect excl rows))
     = {w \<in> set rows. w \<notin> excl \<and> detect w = Inr ''en'' \<and> CHR 0x27 \<notin> set w}"
  unfolding discussion_dict_def Let_def keys_keep_english
  using keys_Counter [of "filter (\<lambda>w. w \<notin> excl) rows"] by auto

lemma distinct_discussion_dict: "distinct (map fst (fst (discussion_dict detect excl rows)))"
  by (simp add: discussion_dict_def Let_def distinct_keep_english)

lemma calls_discussion_dict:
  "set (snd (discussion_dict detect excl rows)) = {w \<in> set rows. w \<notin> excl}"
  "distinct (snd (discussion_dict detect excl rows))"
proof -
  have c: "snd (discussion_dict detect excl rows)
             = map fst (Counter (filter (\<lambda>w. w \<notin> excl) rows))"
    by (simp add: discussion_dict_def Let_def calls_keep_english)
  show "set (snd (discussion_dict detect excl rows)) = {w \<in> set rows. w \<notin> excl}"
    using keys_Counter [of "filter (\<lambda>w. w \<notin> excl) rows"] by (auto simp: c)
  show "distinct (snd (discussion_dict detect excl rows))"
    by (simp add: c distinct_Counter)
qed

lemma map_of_discussion_dict:
  assumes "map_of (fst (discussion_dict detect excl rows)) k = Some v"
  shows "v = int (count_list rows k)"
proof -
  have k: "k \<in> fst ` set (fst (discussion_dict detect excl rows))"
    using assms by (metis domI dom_map_of_conv_image_fst)
  then have nex: "k \<notin> excl" by (simp add: keys_discussion_dict)
  have "v = dict_get (Counter (filter (\<lambda>w. w \<notin> excl) rows)) k 0"
    using map_of_keep_english [OF assms [unfolded discussion_dict_def Let_def]] by simp
  also have "\<dots> = int (count_list (filter (\<lambda>w. w \<notin> excl) rows) k)"
    by (rule dict_get_Counter)
  also have "count_list (filter (\<lambda>w. w \<notin> excl) rows) k = count_list rows k"
    using nex by (induction rows) auto
  finally show ?thesis .
qed

lemma keys_llm_dict: "fst ` set (llm_dict excl rows) = {w \<in> set rows. w \<notin> excl}"
  unfolding llm_dict_def Let_def keys_Counter by auto

lemma set_set_iteration: "set (set_iteration hash ks) = set ks"
  by (simp add: set_iteration_def)

lemma distinct_set_iteration: "distinct (set_iteration hash ks)"
  by (simp add: set_iteration_def)

lemma dict_items_for_ok:
  "set keys \<subseteq> fst ` set d \<Longrightarrow>
   \<exists>items'. dict_items_for d keys items = Inr items'
     \<and> fst ` set items' = fst ` set items \<union> set keys
     \<and> (distinct (map fst items) \<longrightarrow> distinct (map fst items'))
     \<and> (\<forall>k v. map_of items' k = Some v \<longrightarrow> map_of items k = Some v \<or> map_of d k = Some v)"
proof (induction d keys items rule: dict_items_for.induct)
  case (1 d items)
  then show ?case by simp
next
  case (2 d key keys items)
  from "2.prems" obtain v where v: "map_of d key = Some v"
    by (metis list.set_intros(1) subsetD map_of_in_keys)
  from "2.prems" have sub: "set keys \<subseteq> fst ` set d" by simp
  from "2.IH" [OF v sub] obtain items' where
    r: "dict_items_for d keys (dict_set items key v) = Inr items'"
    and k: "fst ` set items' = fst ` set (dict_set items key v) \<union> set keys"
    and dd: "distinct (map fst (dict_set items key v)) \<longrightarrow> distinct (map fst items')"
    and mm: "\<forall>k w. map_of items' k = Some w \<longrightarrow>
               map_of (dict_set items key v) k = Some w \<or> map_of d k = Some w"
    by blast
  have "dict_items_for d (key # keys) items = Inr items'"
    using v r by simp
  moreover have "fst ` set items' = fst ` set items \<union> set (key # keys)"
    using k by (auto simp: keys_dict_set)
  moreover have "distinct (map fst items) \<longrightarrow> distinct (map fst items')"
    using dd by (simp add: distinct_dict_set)
  moreover have "\<forall>k w. map_of items' k = Some w \<longrightarrow> map_of items k = Some w \<or> map_of d k = Some w"
    using mm v by (auto simp: map_of_dict_set split: if_splits)
  ultimately show ?case by blast
qed

lemma set_most_common: "set (most_common n items) \<subseteq> set items"
  unfolding most_common_def
  by (metis set_take_subset set_sort)

lemma length_most_common: "length (most_common n items) \<le> nat n"
  by (simp add: most_common_def)

lemma distinct_most_common:
  "distinct (map fst items) \<Longrightarrow> distinct (map fst (most_common n items))"
proof -
  assume d: "distinct (map fst items)"
  have "distinct (map fst (sort_key (\<lambda>item. - snd item) items))"
    using d by (metis distinct_map distinct_sort set_sort)
  then show ?thesis
    unfolding most_common_def by (metis distinct_take take_map)
qed

lemma most_common_all:
  "length items \<le> nat n \<Longrightarrow> set (most_common n items) = set items"
  by (simp add: most_common_def)

lemma length_most_common_eq:
  "length (most_common n items) = min (length items) (nat n)"
  by (simp add: most_common_def)

lemma dict_set_new: "k \<notin> fst ` set d \<Longrightarrow> dict_set d k v = d @ [(k, v)]"
  by (induction d k v rule: dict_set.induct) auto

lemma foldl_dict_set_distinct:
  "distinct (map fst (acc @ xs)) \<Longrightarrow>
   foldl (\<lambda>acc kv. dict_set acc (fst kv) (snd kv)) acc xs = acc @ xs"
proof (induction xs arbitrary: acc)
  case Nil
  show ?case by simp
next
  case (Cons kv xs)
  have new: "fst kv \<notin> fst ` set acc" using Cons.prems by auto
  have "distinct (map fst ((acc @ [kv]) @ xs))" using Cons.prems by simp
  from Cons.IH [OF this] show ?case
    by (simp add: dict_set_new [OF new])
qed

lemma dict_update_empty_distinct: "distinct (map fst xs) \<Longrightarrow> dict_update [] xs = xs"
  using foldl_dict_set_distinct [of "[]" xs] by (simp add: dict_update_def)

lemma make_y_most_common_word_dicts_eq:
  assumes "x_most_common_words files x = Inr common"
    and "dataset_to_list files discussion_csv = Inr (Some drows)"
    and "dataset_to_list files llm_csv = Inr (Some lrows)"
  shows "\<exists>items calls. make_y_most_common_word_dicts detect hash files y x discussion_csv llm_csv
                  = Inr (most_common y items, calls)
           \<and> fst ` set items = survivors detect (set common) drows lrows
           \<and> distinct (map fst items)
           \<and> (\<forall>w c. (w, c) \<in> set items \<longrightarrow> c = int (count_list drows w))
           \<and> set calls = {w \<in> set drows. w \<notin> set common}
           \<and> distinct calls"
proof -
  let ?dd = "fst (discussion_dict detect (set common) drows)"
  let ?calls = "snd (discussion_dict detect (set common) drows)"
  let ?ld = "llm_dict (set common) lrows"
  let ?ks = "set_iteration hash [key \<leftarrow> map fst ?dd. key \<in> set (map fst ?ld)]"
  have ks: "set ?ks = survivors detect (set common) drows lrows"
    unfolding set_set_iteration
    using keys_discussion_dict [of detect "set common" drows] keys_llm_dict [of "set common" lrows]
    by (auto simp: survivors_def)
  have sub: "set ?ks \<subseteq> fst ` set ?dd"
    by (auto simp: set_set_iteration)
  from dict_items_for_ok [OF sub, of "[]"] obtain items where
    r: "dict_items_for ?dd ?ks [] = Inr items"
    and k: "fst ` set items = set ?ks"
    and d: "distinct (map fst items)"
    and m: "\<forall>k v. map_of items k = Some v \<longrightarrow> map_of ?dd k = Some v"
    by auto
  have run: "make_y_most_common_word_dicts detect hash files y x discussion_csv llm_csv
               = Inr (most_common y items, ?calls)"
    unfolding make_y_most_common_word_dicts_def Let_def using r
    by (simp add: assms dict_update_empty_distinct [OF distinct_most_common [OF d]]
        split_beta)
  have vals: "\<forall>w c. (w, c) \<in> set items \<longrightarrow> c = int (count_list drows w)"
  proof (intro allI impI)
    fix w c
    assume "(w, c) \<in> set items"
    then have "map_of items w = Some c" using d by simp
    then have "map_of ?dd w = Some c" using m by blast
    then show "c = int (count_list drows w)" by (rule map_of_discussion_dict)
  qed
  show ?thesis
    using run k ks d vals calls_discussion_dict [of detect "set common" drows] by auto
qed

lemma count_list_pos: "w \<in> set ws \<Longrightarrow> 1 \<le> count_list ws w"
  by (metis One_nat_def Suc_leI count_list_0_iff neq0_conv)

lemma example_reads:
  "x_most_common_words example_files 1 = Inr [''the'']"
  "dataset_to_list example_files ''words.csv'' = Inr (Some [''game'', ''the'', ''hike'', ''game'', ''zzz''])"
  "dataset_to_list example_files ''llm.csv'' = Inr (Some [''hike'', ''the'', ''game'', ''zzz'', ''fun''])"
  by (simp_all add: example_files_def x_most_common_words_def dataset_to_list_def)

lemma example_selection:
  "make_y_most_common_word_dicts example_detect (\<lambda>w. 0) example_files 10 1 ''words.csv'' ''llm.csv''
     = Inr ([(''game'', 2), (''hike'', 1)], [''game'', ''hike'', ''zzz''])"
  by (simp add: make_y_most_common_word_dicts_def example_reads Let_def discussion_dict_def
      llm_dict_def Counter_def dict_get_def example_detect_def set_iteration_def most_common_def
      dict_update_def)

text \<open>
  C5. Every word that the selector returns occurs in the community word list and in the
  generated word list (at least once in each), is not among the \<open>x\<close> excluded common words,
  was classified as English by the detector and has no apostrophe; the count returned with
  it is its count in the community list.
\<close>

theorem selected_words_invariant:
  assumes "x_most_common_words files x = Inr common"
    and "dataset_to_list files discussion_csv = Inr (Some drows)"
    and "dataset_to_list files llm_csv = Inr (Some lrows)"
  shows "\<exists>r calls.
           make_y_most_common_word_dicts detect hash files y x discussion_csv llm_csv = Inr (r, calls)
           \<and> (\<forall>w c. (w, c) \<in> set r \<longrightarrow>
                  w \<in> set drows \<and> 1 \<le> count_list drows w
                \<and> w \<in> set lrows \<and> 1 \<le> count_list lrows w
                \<and> w \<notin> set common
                \<and> detect w = Inr ''en'' \<and> CHR 0x27 \<notin> set w
                \<and> c = int (count_list drows w))"
proof -
  from make_y_most_common_word_dicts_eq [OF assms, of detect hash y] obtain items calls where
    run: "make_y_most_common_word_dicts detect hash files y x discussion_csv llm_csv
            = Inr (most_common y items, calls)"
    and keys: "fst ` set items = survivors detect (set common) drows lrows"
    and vals: "\<forall>w c. (w, c) \<in> set items \<longrightarrow> c = int (count_list drows w)"
    by blast
  have "\<forall>w c. (w, c) \<in> set (most_common y items) \<longrightarrow>
                  w \<in> set drows \<and> 1 \<le> count_list drows w
                \<and> w \<in> set lrows \<and> 1 \<le> count_list lrows w
                \<and> w \<notin> set common
                \<and> detect w = Inr ''en'' \<and> CHR 0x27 \<notin> set w
                \<and> c = int (count_list drows w)"
  proof (intro allI impI)
    fix w c
    assume "(w, c) \<in> set (most_common y items)"
    then have in_items: "(w, c) \<in> set items"
      using set_most_common by blast
    then have "w \<in> survivors detect (set common) drows lrows"
      using keys by (metis fst_conv image_eqI)
    then have s: "w \<in> set drows" "w \<in> set lrows" "w \<notin> set common"
      "detect w = Inr ''en''" "CHR 0x27 \<notin> set w"
      by (simp_all add: survivors_def)
    show "w \<in> set drows \<and> 1 \<le> count_list drows w
        \<and> w \<in> set lrows \<and> 1 \<le> count_list lrows w
        \<and> w \<notin> set common
        \<and> detect w = Inr ''en'' \<and> CHR 0x27 \<notin> set w
        \<and> c = int (count_list drows w)"
      using s vals in_items count_list_pos [OF s(1)] count_list_pos [OF s(2)] by blast
  qed
  with run show ?thesis by blast
qed

theorem selected_words_invariant_witness:
  "x_most_common_words example_files 1 = Inr [''the'']
   \<and> dataset_to_list example_files ''words.csv''
       = Inr (Some [''game'', ''the'', ''hike'', ''game'', ''zzz''])
   \<and> dataset_to_list example_files ''llm.csv''
       = Inr (Some [''hike'', ''the'', ''game'', ''zzz'', ''fun''])
   \<and> make_y_most_common_word_dicts example_detect (\<lambda>w. 0) example_files 10 1
        ''words.csv'' ''llm.csv''
       = Inr ([(''game'', 2), (''hike'', 1)], [''game'', ''hike'', ''zzz''])
   \<and> ''hike'' \<in> set [''game'', ''the'', ''hike'', ''game'', ''zzz'']
   \<and> ''hike'' \<in> set [''hike'', ''the'', ''game'', ''zzz'', ''fun'']
   \<and> ''hike'' \<notin> set [''the'']
   \<and> example_detect ''hike'' = Inr ''en''
   \<and> CHR 0x27 \<notin> set ''hike''
   \<and> (1::int) = int (count_list [''game'', ''the'', ''hike'', ''game'', ''zzz''] ''hike'')"
proof -
  from selected_words_invariant [OF example_reads, of example_detect "\<lambda>w. 0" 10]
  obtain r calls where
    run: "make_y_most_common_word_dicts example_detect (\<lambda>w. 0) example_files 10 1
            ''words.csv'' ''llm.csv'' = Inr (r, calls)"
    and inv: "\<forall>w c. (w, c) \<in> set r \<longrightarrow>
                  w \<in> set [''game'', ''the'', ''hike'', ''game'', ''zzz'']
                \<and> 1 \<le> count_list [''game'', ''the'', ''hike'', ''game'', ''zzz''] w
                \<and> w \<in> set [''hike'', ''the'', ''game'', ''zzz'', ''fun'']
                \<and> 1 \<le> count_list [''hike'', ''the'', ''game'', ''zzz'', ''fun''] w
                \<and> w \<notin> set [''the'']
                \<and> example_detect w = Inr ''en'' \<and> CHR 0x27 \<notin> set w
                \<and> c = int (count_list [''game'', ''the'', ''hike'', ''game'', ''zzz''] w)"
    by blast
  have r: "r = [(''game'', 2), (''hike'', 1)]"
    using run by (simp add: example_selection)
  have "(''hike'', 1) \<in> set r" by (simp add: r)
  with inv have "''hike'' \<in> set [''game'', ''the'', ''hike'', ''game'', ''zzz'']
      \<and> ''hike'' \<in> set [''hike'', ''the'', ''game'', ''zzz'', ''fun'']
      \<and> ''hike'' \<notin> set [''the'']
      \<and> example_detect ''hike'' = Inr ''en''
      \<and> CHR 0x27 \<notin> set ''hike''
      \<and> (1::int) = int (count_list [''game'', ''the'', ''hike'', ''game'', ''zzz''] ''hike'')"
    by blast
  then show ?thesis
    using example_reads example_selection by blast
qed

text \<open>
  C6. The selector returns at most \<open>y\<close> words (none when \<open>y\<close> is not positive), each once and
  each a survivor of the exclusion, language and both-lists filters; when no more than \<open>y\<close>
  words survive, the words returned are exactly the survivors.
\<close>

theorem selected_words_at_most_y:
  assumes "x_most_common_words files x = Inr common"
    and "dataset_to_list files discussion_csv = Inr (Some drows)"
    and "dataset_to_list files llm_csv = Inr (Some lrows)"
  shows "\<exists>r calls.
           make_y_most_common_word_dicts detect hash files y x discussion_csv llm_csv = Inr (r, calls)
           \<and> length r \<le> nat y
           \<and> (0 \<le> y \<longrightarrow> int (length r) \<le> y)
           \<and> distinct (map fst r)
           \<and> fst ` set r \<subseteq> survivors detect (set common) drows lrows
           \<and> (int (card (survivors detect (set common) drows lrows)) \<le> y \<longrightarrow>
                fst ` set r = survivors detect (set common) drows lrows
              \<and> length r = card (survivors detect (set common) drows lrows))"
proof -
  let ?S = "survivors detect (set common) drows lrows"
  from make_y_most_common_word_dicts_eq [OF assms, of detect hash y] obtain items calls where
    run: "make_y_most_common_word_dicts detect hash files y x discussion_csv llm_csv
            = Inr (most_common y items, calls)"
    and keys: "fst ` set items = ?S"
    and dist: "distinct (map fst items)"
    by blast
  have card: "card ?S = length items"
    using distinct_card [OF dist] keys by simp
  have 1: "length (most_common y items) \<le> nat y"
    by (rule length_most_common)
  have 2: "0 \<le> y \<longrightarrow> int (length (most_common y items)) \<le> y"
    using 1 by auto
  have 3: "distinct (map fst (most_common y items))"
    by (rule distinct_most_common [OF dist])
  have 4: "fst ` set (most_common y items) \<subseteq> ?S"
    using set_most_common [of y items] keys by blast
  have 5: "int (card ?S) \<le> y \<longrightarrow>
             fst ` set (most_common y items) = ?S \<and> length (most_common y items) = card ?S"
  proof
    assume "int (card ?S) \<le> y"
    then have le: "length items \<le> nat y" using card by auto
    then show "fst ` set (most_common y items) = ?S \<and> length (most_common y items) = card ?S"
      using most_common_all [OF le] keys card by (simp add: length_most_common_eq)
  qed
  show ?thesis using run 1 2 3 4 5 by blast
qed

theorem selected_words_at_most_y_witness:
  "x_most_common_words example_files 1 = Inr [''the'']
   \<and> dataset_to_list example_files ''words.csv''
       = Inr (Some [''game'', ''the'', ''hike'', ''game'', ''zzz''])
   \<and> dataset_to_list example_files ''llm.csv''
       = Inr (Some [''hike'', ''the'', ''game'', ''zzz'', ''fun''])
   \<and> make_y_most_common_word_dicts example_detect (\<lambda>w. 0) example_files 1 1
        ''words.csv'' ''llm.csv'' = Inr ([(''game'', 2)], [''game'', ''hike'', ''zzz''])
   \<and> (\<exists>r calls. make_y_most_common_word_dicts example_detect (\<lambda>w. 0) example_files 1 1
               ''words.csv'' ''llm.csv'' = Inr (r, calls) \<and> length r \<le> nat 1)"
proof -
  have run: "make_y_most_common_word_dicts example_detect (\<lambda>w. 0) example_files 1 1
        ''words.csv'' ''llm.csv'' = Inr ([(''game'', 2)], [''game'', ''hike'', ''zzz''])"
    by (simp add: make_y_most_common_word_dicts_def example_reads Let_def discussion_dict_def
      llm_dict_def Counter_def dict_get_def example_detect_def set_iteration_def most_common_def
      dict_update_def)
  from selected_words_at_most_y [OF example_reads, of example_detect "\<lambda>w. 0" 1]
  have "\<exists>r calls. make_y_most_common_word_dicts example_detect (\<lambda>w. 0) example_files 1 1
               ''words.csv'' ''llm.csv'' = Inr (r, calls) \<and> length r \<le> nat 1"
    by blast
  then show ?thesis using run example_reads by blast
qed

text \<open>
  C7. The selector passes to the detector the community words outside the exclusion set,
  each once, and no other word: a word that occurs only in the generated list is never
  tested, so the generated side is restricted by the exclusion set alone. A word on which the
  detector raises has been passed to it and is not returned, and the exception does not leave
  the selector: the call returns a dictionary whatever the detector does. The words returned
  are survivors of the filters, and all the survivors when there are at most \<open>y\<close> of them.
\<close>

theorem language_filter_community_only:
  assumes "x_most_common_words files x = Inr common"
    and "dataset_to_list files discussion_csv = Inr (Some drows)"
    and "dataset_to_list files llm_csv = Inr (Some lrows)"
  shows "\<exists>r calls.
           make_y_most_common_word_dicts detect hash files y x discussion_csv llm_csv = Inr (r, calls)
         \<and> set calls = {w \<in> set drows. w \<notin> set common}
         \<and> distinct calls
         \<and> (\<forall>w \<in> set lrows. w \<notin> set drows \<longrightarrow> w \<notin> set calls)
         \<and> (\<forall>w e. w \<in> set drows \<and> w \<notin> set common \<and> detect w = Inl e \<longrightarrow>
                w \<in> set calls \<and> w \<notin> fst ` set r)
         \<and> (\<forall>w e. detect w = Inl e \<longrightarrow> w \<notin> fst ` set r)
         \<and> fst ` set r \<subseteq> survivors detect (set common) drows lrows
         \<and> (int (card (survivors detect (set common) drows lrows)) \<le> y \<longrightarrow>
              fst ` set r = survivors detect (set common) drows lrows)"
proof -
  let ?S = "survivors detect (set common) drows lrows"
  from make_y_most_common_word_dicts_eq [OF assms, of detect hash y] obtain items calls where
    run: "make_y_most_common_word_dicts detect hash files y x discussion_csv llm_csv
            = Inr (most_common y items, calls)"
    and keys: "fst ` set items = ?S"
    and dist: "distinct (map fst items)"
    and calls: "set calls = {w \<in> set drows. w \<notin> set common}"
    and dcalls: "distinct calls"
    by blast
  have sub: "fst ` set (most_common y items) \<subseteq> ?S"
    using set_most_common [of y items] keys by blast
  have raised: "\<forall>w e. detect w = Inl e \<longrightarrow> w \<notin> fst ` set (most_common y items)"
  proof (intro allI impI)
    fix w e
    assume r: "detect w = Inl e"
    show "w \<notin> fst ` set (most_common y items)"
    proof
      assume "w \<in> fst ` set (most_common y items)"
      then have "w \<in> ?S" using sub by blast
      then have "detect w = Inr ''en''" by (simp add: survivors_def)
      with r show False by simp
    qed
  qed
  have only: "\<forall>w \<in> set lrows. w \<notin> set drows \<longrightarrow> w \<notin> set calls"
    using calls by simp
  have dropped: "\<forall>w e. w \<in> set drows \<and> w \<notin> set common \<and> detect w = Inl e \<longrightarrow>
                w \<in> set calls \<and> w \<notin> fst ` set (most_common y items)"
  proof (intro allI impI)
    fix w e
    assume a: "w \<in> set drows \<and> w \<notin> set common \<and> detect w = Inl e"
    then have "w \<in> set calls" by (simp add: calls)
    moreover have "w \<notin> fst ` set (most_common y items)"
      using raised a by blast
    ultimately show "w \<in> set calls \<and> w \<notin> fst ` set (most_common y items)" ..
  qed
  have card: "card ?S = length items"
    using distinct_card [OF dist] keys by simp
  have all: "int (card ?S) \<le> y \<longrightarrow> fst ` set (most_common y items) = ?S"
  proof
    assume "int (card ?S) \<le> y"
    then have le: "length items \<le> nat y" using card by auto
    show "fst ` set (most_common y items) = ?S"
      using most_common_all [OF le] keys by simp
  qed
  show ?thesis
    by (intro exI [of _ "most_common y items"] exI [of _ calls] conjI
        run calls dcalls only dropped raised sub all)
qed

theorem language_filter_community_only_witness:
  "x_most_common_words example_files 1 = Inr [''the'']
   \<and> dataset_to_list example_files ''words.csv''
       = Inr (Some [''game'', ''the'', ''hike'', ''game'', ''zzz''])
   \<and> dataset_to_list example_files ''llm.csv''
       = Inr (Some [''hike'', ''the'', ''game'', ''zzz'', ''fun''])
   \<and> example_detect ''zzz'' = Inl ValueError
   \<and> make_y_most_common_word_dicts example_detect (\<lambda>w. 0) example_files 10 1
        ''words.csv'' ''llm.csv''
       = Inr ([(''game'', 2), (''hike'', 1)], [''game'', ''hike'', ''zzz''])
   \<and> set [''game'', ''hike'', ''zzz'']
       = {w \<in> set [''game'', ''the'', ''hike'', ''game'', ''zzz'']. w \<notin> set [''the'']}
   \<and> ''fun'' \<notin> set [''game'', ''hike'', ''zzz'']
   \<and> ''zzz'' \<in> set [''game'', ''hike'', ''zzz'']
   \<and> ''zzz'' \<notin> fst ` set [(''game'', 2::int), (''hike'', 1)]"
proof -
  have z: "example_detect ''zzz'' = Inl ValueError"
    by (simp add: example_detect_def)
  let ?r = "[(''game'', 2::int), (''hike'', 1)]" and ?c = "[''game'', ''hike'', ''zzz'']"
  let ?d = "[''game'', ''the'', ''hike'', ''game'', ''zzz'']"
  let ?l = "[''hike'', ''the'', ''game'', ''zzz'', ''fun'']"
  from language_filter_community_only [OF example_reads, of example_detect "\<lambda>w. 0" 10]
  have "\<exists>r calls. Inr (?r, ?c) = (Inr (r, calls) :: py_error + _)
         \<and> set calls = {w \<in> set ?d. w \<notin> set [''the'']}
         \<and> distinct calls
         \<and> (\<forall>w \<in> set ?l. w \<notin> set ?d \<longrightarrow> w \<notin> set calls)
         \<and> (\<forall>w e. w \<in> set ?d \<and> w \<notin> set [''the''] \<and> example_detect w = Inl e \<longrightarrow>
                w \<in> set calls \<and> w \<notin> fst ` set r)
         \<and> (\<forall>w e. example_detect w = Inl e \<longrightarrow> w \<notin> fst ` set r)
         \<and> fst ` set r \<subseteq> survivors example_detect (set [''the'']) ?d ?l
         \<and> (int (card (survivors example_detect (set [''the'']) ?d ?l)) \<le> 10 \<longrightarrow>
              fst ` set r = survivors example_detect (set [''the'']) ?d ?l)"
    by (simp only: example_selection)
  then obtain r calls where
    eq: "Inr (?r, ?c) = (Inr (r, calls) :: py_error + _)"
    and calls: "set calls = {w \<in> set ?d. w \<notin> set [''the'']}"
    and only: "\<forall>w \<in> set ?l. w \<notin> set ?d \<longrightarrow> w \<notin> set calls"
    and dropped: "\<forall>w e. w \<in> set ?d \<and> w \<notin> set [''the''] \<and> example_detect w = Inl e \<longrightarrow>
                w \<in> set calls \<and> w \<notin> fst ` set r"
    by (elim exE conjE)
  have r: "r = ?r" and c: "calls = ?c"
    using eq by simp_all
  have 1: "set ?c = {w \<in> set ?d. w \<notin> set [''the'']}"
    using calls by (simp only: c)
  have "''fun'' \<in> set ?l" and "''fun'' \<notin> set ?d" by simp_all
  with only have 2: "''fun'' \<notin> set ?c" unfolding c by blast
  have "''zzz'' \<in> set ?d \<and> ''zzz'' \<notin> set [''the''] \<and> example_detect ''zzz'' = Inl ValueError"
    using z by simp
  with dropped have 3: "''zzz'' \<in> set ?c \<and> ''zzz'' \<notin> fst ` set ?r"
    unfolding c r by blast
  show ?thesis
    by (intro conjI example_reads z example_selection 1 2 3 [THEN conjunct1] 3 [THEN conjunct2])
qed

text \<open>
  C10. \<^verbatim>\<open>dataset_to_list\<close> returns the first row of its file and nothing of the rows after
  it; on a file without rows it returns \<^verbatim>\<open>None\<close>, and then the selector raises
  \<^verbatim>\<open>TypeError\<close> when it iterates over the result.
\<close>

theorem dataset_to_list_first_row:
  "(files file_path = Some (row # rest) \<longrightarrow> dataset_to_list files file_path = Inr (Some row))
   \<and> (files file_path = Some [] \<longrightarrow> dataset_to_list files file_path = Inr None)
   \<and> (x_most_common_words files x = Inr common
        \<and> files discussion_csv \<noteq> None \<and> files llm_csv \<noteq> None
        \<and> (files discussion_csv = Some [] \<or> files llm_csv = Some [])
      \<longrightarrow> make_y_most_common_word_dicts detect hash files y x discussion_csv llm_csv
            = Inl TypeError)"
proof -
  have 1: "files file_path = Some (row # rest) \<longrightarrow> dataset_to_list files file_path = Inr (Some row)"
    by (simp add: dataset_to_list_def)
  have 2: "files file_path = Some [] \<longrightarrow> dataset_to_list files file_path = Inr None"
    by (simp add: dataset_to_list_def)
  have 3: "x_most_common_words files x = Inr common
        \<and> files discussion_csv \<noteq> None \<and> files llm_csv \<noteq> None
        \<and> (files discussion_csv = Some [] \<or> files llm_csv = Some [])
      \<longrightarrow> make_y_most_common_word_dicts detect hash files y x discussion_csv llm_csv
            = Inl TypeError"
    by (auto simp: make_y_most_common_word_dicts_def dataset_to_list_def
        split: list.splits option.splits)
  show ?thesis using 1 2 3 by blast
qed

theorem dataset_to_list_first_row_witness:
  "dataset_to_list [''words.csv'' \<mapsto> [[''a'', ''b''], [''c'']]] ''words.csv'' = Inr (Some [''a'', ''b''])
   \<and> dataset_to_list [''words.csv'' \<mapsto> []] ''words.csv'' = Inr None
   \<and> make_y_most_common_word_dicts example_detect (\<lambda>w. 0)
        (example_files(''words.csv'' \<mapsto> [])) 10 1 ''words.csv'' ''llm.csv'' = Inl TypeError"
proof -
  have 1: "dataset_to_list [''words.csv'' \<mapsto> [[''a'', ''b''], [''c'']]] ''words.csv'' = Inr (Some [''a'', ''b''])"
    using dataset_to_list_first_row [of "[''words.csv'' \<mapsto> [[''a'', ''b''], [''c'']]]" "''words.csv''"
        "[''a'', ''b'']" "[[''c'']]", THEN conjunct1]
    by simp
  have 2: "dataset_to_list [''words.csv'' \<mapsto> []] ''words.csv'' = Inr None"
    using dataset_to_list_first_row [of "[''words.csv'' \<mapsto> []]" "''words.csv''", THEN conjunct2, THEN conjunct1]
    by simp
  have x: "x_most_common_words (example_files(''words.csv'' \<mapsto> [])) 1 = Inr [''the'']"
    by (simp add: example_files_def x_most_common_words_def)
  have 3: "make_y_most_common_word_dicts example_detect (\<lambda>w. 0)
        (example_files(''words.csv'' \<mapsto> [])) 10 1 ''words.csv'' ''llm.csv'' = Inl TypeError"
    using dataset_to_list_first_row [of "example_files(''words.csv'' \<mapsto> [])" _ _ _ 1 "[''the'']"
        "''words.csv''" "''llm.csv''" example_detect "\<lambda>w. 0" 10, THEN conjunct2, THEN conjunct2] x
    by (simp add: example_files_def)
  show ?thesis using 1 2 3 by blast
qed

section \<open>Facts about \<^verbatim>\<open>format_posts\<close>\<close>

lemma del_keys_eq:
  "distinct keys \<Longrightarrow> set keys \<subseteq> fst ` set (h post) \<Longrightarrow>
   del_keys h post keys = Inr (h(post := filter (\<lambda>kv. fst kv \<notin> set keys) (h post)))"
proof (induction keys arbitrary: h)
  case Nil
  then show ?case by simp
next
  case (Cons key keys)
  let ?d = "filter (\<lambda>kv. fst kv \<noteq> key) (h post)"
  have del: "dict_del (h post) key = Inr ?d"
    using Cons.prems(2) by (simp add: dict_del_def)
  have sub: "set keys \<subseteq> fst ` set ((h(post := ?d)) post)"
  proof
    fix x
    assume x: "x \<in> set keys"
    then have "x \<noteq> key" using Cons.prems(1) by auto
    moreover from x Cons.prems(2) obtain kv where "kv \<in> set (h post)" "fst kv = x"
      by auto
    ultimately show "x \<in> fst ` set ((h(post := ?d)) post)" by force
  qed
  have dist: "distinct keys" using Cons.prems(1) by simp
  have "del_keys (h(post := ?d)) post keys
          = Inr ((h(post := ?d))(post := filter (\<lambda>kv. fst kv \<notin> set keys) ((h(post := ?d)) post)))"
    by (rule Cons.IH [of "h(post := ?d)", OF dist sub])
  moreover have "filter (\<lambda>kv. fst kv \<notin> set keys) ?d
                   = filter (\<lambda>kv. fst kv \<notin> set (key # keys)) (h post)"
    by (induction "h post") (auto intro: filter_cong)
  ultimately show ?case
    using del by (auto simp add: fun_upd_def fun_eq_iff)
qed

lemma keep_only_eq:
  "filter (\<lambda>kv. fst kv \<notin> set [key \<leftarrow> map fst d. key \<notin> words]) d
     = filter (\<lambda>kv. fst kv \<in> words) d"
  by (rule filter_cong) (auto simp: image_iff)

lemma distinct_keep_only:
  "distinct (map fst d) \<Longrightarrow> distinct (map fst (filter (\<lambda>kv. fst kv \<in> words) d))"
  by (simp add: distinct_map_filter)

text \<open>The loop over the documents leaves in every listed object the entries of the words to
  check, and leaves the other objects alone.\<close>

lemma strip_documents_eq:
  "\<forall>a \<in> set posts. distinct (map fst (h a)) \<Longrightarrow>
   strip_documents words h posts
     = Inr (\<lambda>a. if a \<in> set posts then filter (\<lambda>kv. fst kv \<in> words) (h a) else h a)"
proof (induction posts arbitrary: h)
  case Nil
  then show ?case by simp
next
  case (Cons post posts)
  let ?keys = "[key \<leftarrow> map fst (h post). key \<notin> words]"
  let ?h1 = "h(post := filter (\<lambda>kv. fst kv \<in> words) (h post))"
  have dp: "distinct (map fst (h post))" using Cons.prems by simp
  have "del_keys h post ?keys
          = Inr (h(post := filter (\<lambda>kv. fst kv \<notin> set ?keys) (h post)))"
  proof (rule del_keys_eq)
    show "distinct ?keys" using dp by simp
    show "set ?keys \<subseteq> fst ` set (h post)" by auto
  qed
  then have del: "del_keys h post ?keys = Inr ?h1"
    by (simp only: keep_only_eq)
  have d1: "\<forall>a \<in> set posts. distinct (map fst (?h1 a))"
    using Cons.prems by (auto simp: distinct_keep_only)
  have "strip_documents words ?h1 posts
          = Inr (\<lambda>a. if a \<in> set posts then filter (\<lambda>kv. fst kv \<in> words) (?h1 a) else ?h1 a)"
    by (rule Cons.IH [OF d1])
  moreover have "(\<lambda>a. if a \<in> set posts then filter (\<lambda>kv. fst kv \<in> words) (?h1 a) else ?h1 a)
      = (\<lambda>a. if a \<in> set (post # posts) then filter (\<lambda>kv. fst kv \<in> words) (h a) else h a)"
    by (auto simp: fun_eq_iff)
  ultimately show ?case
    using del by (simp add: Let_def)
qed

lemma map_nth_segment:
  "map (\<lambda>a. f ((xs @ ys) ! a)) [length xs..<length xs + length ys] = map f ys"
  by (rule nth_equalityI) (simp_all add: nth_append)

lemma map_nth_prefix:
  "map (\<lambda>a. f ((xs @ ys) ! a)) [0..<length xs] = map f xs"
  by (rule nth_equalityI) (simp_all add: nth_append)

lemma format_posts_eq:
  assumes fl_in: "files json_path = Some (posts, llm_responses, WordCounts d)"
    and wf: "\<forall>doc \<in> set posts \<union> set llm_responses. distinct (map fst doc)"
  shows "format_posts hash directories files json_path =
           (if can_create directories (''second_'' @ json_path)
            then Inr (files(''second_'' @ json_path \<mapsto>
                   (map (filter (\<lambda>kv. fst kv \<in> fst ` set d)) posts,
                    map (filter (\<lambda>kv. fst kv \<in> fst ` set d)) llm_responses,
                    WordList (set_iteration hash (map fst d)))))
            else Inl FileNotFoundError)"
proof -
  let ?n = "length posts" and ?m = "length llm_responses"
  let ?h = "\<lambda>a. if a < ?n + ?m then (posts @ llm_responses) ! a else []"
  let ?keep = "filter (\<lambda>kv. fst kv \<in> fst ` set d)"
  let ?h1 = "\<lambda>a. if a \<in> set [0..<?n] then ?keep (?h a) else ?h a"
  let ?h2 = "\<lambda>a. if a \<in> set [?n..<?n + ?m] then ?keep (?h1 a) else ?h1 a"
  have load: "json_load (posts, llm_responses, WordCounts d)
                = (([0..<?n], [?n..<?n + ?m], WordCounts d), ?h)"
    by (simp add: json_load_def Let_def)
  have wf_all: "distinct (map fst (?h a))" for a
  proof -
    show "distinct (map fst (?h a))"
    proof (cases "a < ?n + ?m")
      case True
      then have "(posts @ llm_responses) ! a \<in> set (posts @ llm_responses)"
        by (metis length_append nth_mem)
      then show ?thesis using wf True by auto
    next
      case False
      then show ?thesis by simp
    qed
  qed
  have s1: "strip_documents (fst ` set d) ?h [0..<?n] = Inr ?h1"
    by (rule strip_documents_eq) (use wf_all in blast)
  have wf1: "\<forall>a \<in> set [?n..<?n + ?m]. distinct (map fst (?h1 a))"
  proof
    fix a
    assume "a \<in> set [?n..<?n + ?m]"
    then have "?h1 a = ?h a" by simp
    then show "distinct (map fst (?h1 a))" using wf_all [of a] by (simp only:)
  qed
  have s2: "strip_documents (fst ` set d) ?h1 [?n..<?n + ?m] = Inr ?h2"
    by (rule strip_documents_eq [OF wf1])
  have p: "map ?h2 [0..<?n] = map ?keep posts"
  proof -
    have "map ?h2 [0..<?n] = map (\<lambda>a. ?keep ((posts @ llm_responses) ! a)) [0..<?n]"
      by (rule map_cong) auto
    then show ?thesis by (simp only: map_nth_prefix)
  qed
  have l: "map ?h2 [?n..<?n + ?m] = map ?keep llm_responses"
  proof -
    have "map ?h2 [?n..<?n + ?m]
            = map (\<lambda>a. ?keep ((posts @ llm_responses) ! a)) [?n..<?n + ?m]"
      by (rule map_cong) auto
    then show ?thesis by (simp only: map_nth_segment)
  qed
  show ?thesis
    unfolding format_posts_def
    by (simp only: fl_in option.case load prod.case json_words.case Let_def set_map s1 s2
        sum.case p l)
qed





section \<open>Facts about the batch driver\<close>

lemma p_values_loop_empty:
  "posts = [] \<or> llm_responses = [] \<Longrightarrow> ws \<noteq> [] \<Longrightarrow>
     p_values_loop g posts llm_responses ws acc = Inl ZeroDivisionError"
  by (cases ws) (simp_all add: calculate_p_value_empty)

lemma p_values_loop_ok:
  assumes "posts \<noteq> []" "llm_responses \<noteq> []"
  shows "\<exists>final g'. p_values_loop g posts llm_responses ws acc = Inr (final, g')
           \<and> fst ` set final = fst ` set acc \<union> set ws"
proof (induction ws arbitrary: g acc)
  case Nil
  show ?case by simp
next
  case (Cons word ws)
  let ?r = "(observedDiff (document_values posts word) (document_values llm_responses word),
             empirical_p_value g (document_values posts word) (document_values llm_responses word))"
  let ?g = "advance (10000 * (length posts + length llm_responses)) g"
  from Cons.IH [of ?g "dict_set acc word ?r"] obtain final g' where
    "p_values_loop ?g posts llm_responses ws (dict_set acc word ?r) = Inr (final, g')"
    and "fst ` set final = fst ` set (dict_set acc word ?r) \<union> set ws"
    by blast
  then show ?case
    by (simp add: calculate_p_value_eq [OF assms] keys_dict_set)
qed

text \<open>The loop over the paths runs the first paths and then, from where they leave the random
  source and the files, the paths after them; an exception of the first part is the
  outcome of the whole.\<close>

lemma trials_loop_append:
  "trials_loop hash directories g files (ps @ qs) acc =
     (case trials_loop hash directories g files ps acc of
        Inl e \<Rightarrow> Inl e
      | Inr (acc', g', files') \<Rightarrow> trials_loop hash directories g' files' qs acc')"
proof (induction ps arbitrary: g files acc)
  case Nil
  show ?case by simp
next
  case (Cons p ps)
  show ?case
    by (simp add: Cons.IH split: sum.splits prod.splits)
qed

lemma from_scratch_run:
  assumes "calculate_p_values_from_scratch hash directories g files before
             = Inr (combined, g1, files1)"
  shows "\<exists>p_values. trials_loop hash directories g files before [] = Inr (p_values, g1, files1)"
  using assms
  by (auto simp: calculate_p_values_from_scratch_def split: sum.splits prod.splits)

lemma from_scratch_trial_fails:
  assumes "calculate_p_values_from_scratch hash directories g files before
             = Inr (combined, g1, files1)"
    and "format_posts hash directories files1 path = Inl e
         \<or> (\<exists>files2. format_posts hash directories files1 path = Inr files2
                \<and> calculate_p_values g1 files2 path = Inl e)"
  shows "calculate_p_values_from_scratch hash directories g files (before @ path # after) = Inl e"
proof -
  from from_scratch_run [OF assms(1)] obtain p_values where
    t: "trials_loop hash directories g files before [] = Inr (p_values, g1, files1)"
    by blast
  have "trials_loop hash directories g1 files1 (path # after) p_values = Inl e"
    using assms(2) by auto
  then have "trials_loop hash directories g files (before @ path # after) [] = Inl e"
    by (simp add: trials_loop_append t)
  then show ?thesis
    by (simp only: calculate_p_values_from_scratch_def sum.case)
qed

lemma example_test:
  "calculate_p_value (\<lambda>k. 0) [[(''game'', 2)]] [[]] ''game'' = Inr ((2, 0), (\<lambda>k. 0))"
proof -
  have c: "document_values [[(''game'', 2)]] ''game'' = [2]"
    and l: "document_values [[]] ''game'' = [0]"
    by (simp_all add: document_values_def dict_get_def)
  have obs: "observedDiff [2] [0] = 2"
    by (simp add: observedDiff_def mean_def fl_two fl_zero)
  have "\<And>x. resample_diff (\<lambda>k. 0) [2, 0] (Suc 0) (Suc 0) x = 0"
    by (simp add: resample_diff_def resample_A_def resample_B_def drawn_index_def mean_def fl_zero)
  then have cnt: "resample_counter (\<lambda>k. 0) [2, 0] (Suc 0) (Suc 0) 2 10000 = 0"
    by (intro resample_counter_none) simp
  have adv: "advance n (\<lambda>k. 0) = (\<lambda>k. 0)" for n
    by (simp add: advance_def)
  have ne: "[[(''game'', 2::int)]] \<noteq> []" "[[] :: document_counts] \<noteq> []"
    by simp_all
  show ?thesis
    by (simp add: calculate_p_value_eq [OF ne] c l obs empirical_p_value_def cnt fl_zero adv)
qed

lemma example_first_trial:
  assumes "files ''0dump.json''
             = Some ([[(''game'', 2), (''the'', 5)]], [[(''the'', 1)]], WordCounts [(''game'', 2)])"
  shows "calculate_p_values_from_scratch (\<lambda>w. 0) {} (\<lambda>k. 0) files [''0dump.json'']
           = Inr ([(''game'', (2, 0))], (\<lambda>k. 0),
                  files(''second_0dump.json'' \<mapsto> ([[(''game'', 2)]], [[]], WordList [''game''])))"
proof -
  have c: "can_create {} (''second_'' @ ''0dump.json'')"
    by (simp add: can_create_def parent_directory_def)
  have f: "format_posts (\<lambda>w. 0) {} files ''0dump.json''
             = Inr (files(''second_0dump.json'' \<mapsto> ([[(''game'', 2)]], [[]], WordList [''game''])))"
    using format_posts_eq [of files "''0dump.json''" "[[(''game'', 2), (''the'', 5)]]"
        "[[(''the'', 1)]]" "[(''game'', 2)]" "\<lambda>w. 0" "{}"] assms c
    by (simp add: set_iteration_def)
  have p: "calculate_p_values (\<lambda>k. 0)
             (files(''second_0dump.json'' \<mapsto> ([[(''game'', 2)]], [[]], WordList [''game'']))) ''0dump.json''
             = Inr ([(''game'', (2, 0))], (\<lambda>k. 0))"
    by (simp add: calculate_p_values_def example_test)
  show ?thesis
    by (simp add: calculate_p_values_from_scratch_def f p dict_update_def)
qed

text \<open>
  C4, as the code has it. The batch driver catches nothing. When a corpus is empty and there
  is a word to check, \<^verbatim>\<open>calculate_p_values\<close> raises the \<^verbatim>\<open>ZeroDivisionError\<close> of the first
  test and returns no mapping. In \<^verbatim>\<open>calculate_p_values_from_scratch\<close>, after any number of
  trials that returned, an exception of \<^verbatim>\<open>format_posts\<close> or of \<^verbatim>\<open>calculate_p_values\<close> in a
  trial is the outcome of the whole call, whatever trials come after it. When both corpora
  have documents every word to check gets an entry.
\<close>

theorem batch_failure_propagates:
  "(files (''second_'' @ json_path) = Some (posts, llm_responses, WordList ws)
      \<and> (posts = [] \<or> llm_responses = []) \<and> ws \<noteq> [] \<longrightarrow>
    calculate_p_values g files json_path = Inl ZeroDivisionError)
   \<and> (calculate_p_values_from_scratch hash directories g files before
         = Inr (combined, g1, files1)
      \<and> format_posts hash directories files1 path = Inl e \<longrightarrow>
    calculate_p_values_from_scratch hash directories g files (before @ path # after) = Inl e)
   \<and> (calculate_p_values_from_scratch hash directories g files before
         = Inr (combined, g1, files1)
      \<and> format_posts hash directories files1 path = Inr files2
      \<and> calculate_p_values g1 files2 path = Inl e \<longrightarrow>
    calculate_p_values_from_scratch hash directories g files (before @ path # after) = Inl e)
   \<and> (files (''second_'' @ json_path) = Some (posts, llm_responses, WordList ws)
      \<and> posts \<noteq> [] \<and> llm_responses \<noteq> [] \<longrightarrow>
    (\<exists>final g'. calculate_p_values g files json_path = Inr (final, g')
       \<and> fst ` set final = set ws))"
proof -
  have 1: "files (''second_'' @ json_path) = Some (posts, llm_responses, WordList ws)
      \<and> (posts = [] \<or> llm_responses = []) \<and> ws \<noteq> [] \<longrightarrow>
    calculate_p_values g files json_path = Inl ZeroDivisionError"
    by (auto simp: calculate_p_values_def p_values_loop_empty simp del: append.simps)
  have 2: "calculate_p_values_from_scratch hash directories g files before
         = Inr (combined, g1, files1)
      \<and> format_posts hash directories files1 path = Inl e \<longrightarrow>
    calculate_p_values_from_scratch hash directories g files (before @ path # after) = Inl e"
    using from_scratch_trial_fails [of hash directories g files before combined g1 files1 path e after]
    by blast
  have 3: "calculate_p_values_from_scratch hash directories g files before
         = Inr (combined, g1, files1)
      \<and> format_posts hash directories files1 path = Inr files2
      \<and> calculate_p_values g1 files2 path = Inl e \<longrightarrow>
    calculate_p_values_from_scratch hash directories g files (before @ path # after) = Inl e"
    using from_scratch_trial_fails [of hash directories g files before combined g1 files1 path e after]
    by blast
  have 4: "files (''second_'' @ json_path) = Some (posts, llm_responses, WordList ws)
      \<and> posts \<noteq> [] \<and> llm_responses \<noteq> [] \<longrightarrow>
    (\<exists>final g'. calculate_p_values g files json_path = Inr (final, g')
       \<and> fst ` set final = set ws)"
  proof
    assume a: "files (''second_'' @ json_path) = Some (posts, llm_responses, WordList ws)
      \<and> posts \<noteq> [] \<and> llm_responses \<noteq> []"
    then have ne: "posts \<noteq> []" "llm_responses \<noteq> []" by simp_all
    from p_values_loop_ok [OF ne, of g ws "[]"] a
    show "\<exists>final g'. calculate_p_values g files json_path = Inr (final, g')
       \<and> fst ` set final = set ws"
      by (simp add: calculate_p_values_def del: append.simps)
  qed
  show ?thesis by (intro conjI 1 2 3 4)
qed

theorem batch_failure_propagates_witness:
  "calculate_p_values (\<lambda>k. 0)
      [''second_dump.json'' \<mapsto> ([], [[(''game'', 1)]], WordList [''game'', ''hike''])]
      ''dump.json'' = Inl ZeroDivisionError
   \<and> calculate_p_values_from_scratch (\<lambda>w. 0) {} (\<lambda>k. 0)
        [''0dump.json'' \<mapsto> ([[(''game'', 2), (''the'', 5)]], [[(''the'', 1)]], WordCounts [(''game'', 2)])]
        [''0dump.json'']
       = Inr ([(''game'', (2, 0))], (\<lambda>k. 0),
              [''0dump.json'' \<mapsto> ([[(''game'', 2), (''the'', 5)]], [[(''the'', 1)]], WordCounts [(''game'', 2)]),
               ''second_0dump.json'' \<mapsto> ([[(''game'', 2)]], [[]], WordList [''game''])])
   \<and> calculate_p_values_from_scratch (\<lambda>w. 0) {} (\<lambda>k. 0)
        [''0dump.json'' \<mapsto> ([[(''game'', 2), (''the'', 5)]], [[(''the'', 1)]], WordCounts [(''game'', 2)])]
        [''0dump.json'', ''1dump.json'', ''2dump.json''] = Inl FileNotFoundError
   \<and> calculate_p_values_from_scratch (\<lambda>w. 0) {} (\<lambda>k. 0)
        [''0dump.json'' \<mapsto> ([[(''game'', 2), (''the'', 5)]], [[(''the'', 1)]], WordCounts [(''game'', 2)]),
         ''1dump.json'' \<mapsto> ([], [[(''the'', 1)]], WordCounts [(''game'', 2)])]
        [''0dump.json'', ''1dump.json'', ''2dump.json''] = Inl ZeroDivisionError
   \<and> (\<exists>final g'. calculate_p_values (\<lambda>k. 0)
          [''second_dump.json'' \<mapsto> ([[(''game'', 2)]], [[]], WordList [''game'', ''hike''])]
          ''dump.json'' = Inr (final, g')
        \<and> fst ` set final = {''game'', ''hike''})"
proof -
  let ?d0 = "([[(''game'', 2::int), (''the'', 5)]], [[(''the'', 1::int)]], WordCounts [(''game'', 2)])"
  let ?s0 = "([[(''game'', 2::int)]], [[] :: document_counts], WordList [''game''])"
  let ?d1 = "([] :: document_counts list, [[(''the'', 1::int)]], WordCounts [(''game'', 2)])"
  let ?fa = "[''0dump.json'' \<mapsto> ?d0]"
  let ?fb = "[''0dump.json'' \<mapsto> ?d0, ''1dump.json'' \<mapsto> ?d1]"
  have 1: "calculate_p_values (\<lambda>k. 0)
      [''second_dump.json'' \<mapsto> ([], [[(''game'', 1)]], WordList [''game'', ''hike''])]
      ''dump.json'' = Inl ZeroDivisionError"
    using batch_failure_propagates [where files =
          "[''second_dump.json'' \<mapsto> ([], [[(''game'', 1)]], WordList [''game'', ''hike''])]"
        and json_path = "''dump.json''" and posts = "[]" and llm_responses = "[[(''game'', 1)]]"
        and ws = "[''game'', ''hike'']" and g = "\<lambda>k. 0",
        THEN conjunct1]
    by simp
  have a: "calculate_p_values_from_scratch (\<lambda>w. 0) {} (\<lambda>k. 0) ?fa [''0dump.json'']
       = Inr ([(''game'', (2, 0))], (\<lambda>k. 0), ?fa(''second_0dump.json'' \<mapsto> ?s0))"
    by (rule example_first_trial) simp
  have b: "calculate_p_values_from_scratch (\<lambda>w. 0) {} (\<lambda>k. 0) ?fb [''0dump.json'']
       = Inr ([(''game'', (2, 0))], (\<lambda>k. 0), ?fb(''second_0dump.json'' \<mapsto> ?s0))"
    by (rule example_first_trial) simp
  have fa: "format_posts (\<lambda>w. 0) {} (?fa(''second_0dump.json'' \<mapsto> ?s0)) ''1dump.json''
              = Inl FileNotFoundError"
    by (simp add: format_posts_def)
  have 2: "calculate_p_values_from_scratch (\<lambda>w. 0) {} (\<lambda>k. 0) ?fa
        ([''0dump.json''] @ ''1dump.json'' # [''2dump.json'']) = Inl FileNotFoundError"
    using batch_failure_propagates [where hash = "\<lambda>w. 0" and directories = "{}"
        and g = "\<lambda>k. 0" and files = ?fa and before = "[''0dump.json'']"
        and combined = "[(''game'', (2, 0))]" and ?g1.0 = "\<lambda>k. 0"
        and ?files1.0 = "?fa(''second_0dump.json'' \<mapsto> ?s0)" and path = "''1dump.json''"
        and e = FileNotFoundError and after = "[''2dump.json'']",
        THEN conjunct2, THEN conjunct1] a fa
    by blast
  have c1: "can_create {} (''second_'' @ ''1dump.json'')"
    by (simp add: can_create_def parent_directory_def)
  let ?f2 = "(?fb(''second_0dump.json'' \<mapsto> ?s0))(''second_1dump.json'' \<mapsto>
      ([] :: document_counts list, [[] :: document_counts], WordList [''game'']))"
  have fb: "format_posts (\<lambda>w. 0) {} (?fb(''second_0dump.json'' \<mapsto> ?s0)) ''1dump.json'' = Inr ?f2"
    using format_posts_eq [of "?fb(''second_0dump.json'' \<mapsto> ?s0)" "''1dump.json''" "[]"
        "[[(''the'', 1)]]" "[(''game'', 2)]" "\<lambda>w. 0" "{}"] c1
    by (simp add: set_iteration_def)
  have pb: "calculate_p_values (\<lambda>k. 0) ?f2 ''1dump.json'' = Inl ZeroDivisionError"
    by (simp add: calculate_p_values_def calculate_p_value_empty)
  have 3: "calculate_p_values_from_scratch (\<lambda>w. 0) {} (\<lambda>k. 0) ?fb
        ([''0dump.json''] @ ''1dump.json'' # [''2dump.json'']) = Inl ZeroDivisionError"
    using batch_failure_propagates [where hash = "\<lambda>w. 0" and directories = "{}"
        and g = "\<lambda>k. 0" and files = ?fb and before = "[''0dump.json'']"
        and combined = "[(''game'', (2, 0))]" and ?g1.0 = "\<lambda>k. 0"
        and ?files1.0 = "?fb(''second_0dump.json'' \<mapsto> ?s0)" and path = "''1dump.json''"
        and e = ZeroDivisionError and after = "[''2dump.json'']" and ?files2.0 = ?f2,
        THEN conjunct2, THEN conjunct2, THEN conjunct1] b fb pb
    by blast
  have 4: "\<exists>final g'. calculate_p_values (\<lambda>k. 0)
          [''second_dump.json'' \<mapsto> ([[(''game'', 2)]], [[]], WordList [''game'', ''hike''])]
          ''dump.json'' = Inr (final, g')
        \<and> fst ` set final = {''game'', ''hike''}"
    using batch_failure_propagates [where files =
          "[''second_dump.json'' \<mapsto> ([[(''game'', 2)]], [[]], WordList [''game'', ''hike''])]"
        and json_path = "''dump.json''" and posts = "[[(''game'', 2)]]" and llm_responses = "[[]]"
        and ws = "[''game'', ''hike'']" and g = "\<lambda>k. 0",
        THEN conjunct2, THEN conjunct2, THEN conjunct2]
    by simp
  have a': "calculate_p_values_from_scratch (\<lambda>w. 0) {} (\<lambda>k. 0) ?fa [''0dump.json'']
       = Inr ([(''game'', (2, 0))], (\<lambda>k. 0),
              [''0dump.json'' \<mapsto> ?d0, ''second_0dump.json'' \<mapsto> ?s0])"
    using a by simp
  show ?thesis
    using 1 a' 2 3 4 by simp
qed

theorem batch_aborts_counterexample:
  "calculate_p_values (\<lambda>k. 0)
      [''second_dump.json'' \<mapsto> ([], [[(''game'', 1)]], WordList [''game'', ''hike''])]
      ''dump.json'' = Inl ZeroDivisionError"
  by (simp add: calculate_p_values_def calculate_p_value_empty)

end
